theory Spec2Isabelle
  imports Complex_Main
begin

section \<open>Miniature GPT notebook: shallow embedding\<close>

text \<open>
  The notebook \<^verbatim>\<open>text_generation_with_miniature_gpt.ipynb\<close> is Python over a
  tensor framework. Python integers are \<open>int\<close>, Python exceptions are values of
  \<open>error\<close>, and a function that may raise returns \<open>error + 'a\<close> with \<open>Inl\<close> for the
  exception. Tensors are nested lists: of float32 values (\<open>f32\<close>, with the infinities
  and NaN) in the attention layer and the transformer block, of reals in the embedding
  and in the sampling routine.
\<close>

datatype error = ValueError string | ZeroDivisionError | IndexError | InvalidArgumentError string

subsection \<open>Causal attention mask\<close>

text \<open>
  \<^verbatim>\<open>
  def causal_attention_mask(n_dest, n_src, dtype):
      i = tf.range(n_dest)[:, None]
      j = tf.range(n_src)
      m = i >= j - n_src + n_dest
      return tf.cast(m, dtype)
  \<close>
  \<open>tf.range n\<close> is \<open>0, 1, ..., n - 1\<close>, empty when \<open>n \<le> 0\<close>. The comparison
  broadcasts the column \<open>i\<close> against the row \<open>j\<close>; the cast sends True to 1 and
  False to 0 of the target type, which is the result type here.
\<close>

definition tf_range :: "int \<Rightarrow> int list" where
  "tf_range n = [0..n - 1]"

definition causal_attention_mask :: "int \<Rightarrow> int \<Rightarrow> ('a::zero_neq_one) list list" where
  "causal_attention_mask n_dest n_src =
     map (\<lambda>i. map (\<lambda>j. of_bool (i \<ge> j - n_src + n_dest)) (tf_range n_src)) (tf_range n_dest)"

subsection \<open>Vocabulary: tokenize and detokenize\<close>

text \<open>
  \<^verbatim>\<open>
  word_to_index = {}
  for index, word in enumerate(vocab):
      word_to_index[word] = index
  ...
  start_tokens = [word_to_index.get(_, 1) for _ in start_prompt.split()]
  \<close>
  The dictionary is a map; a later occurrence of a word overwrites an earlier one.
\<close>

definition word_to_index :: "string list \<Rightarrow> (string \<rightharpoonup> int)" where
  "word_to_index vocab =
     fold (\<lambda>(index, word) m. m(word \<mapsto> int index)) (enumerate 0 vocab) Map.empty"

definition tokenize :: "string list \<Rightarrow> string \<Rightarrow> int" where
  "tokenize vocab w = (case word_to_index vocab w of None \<Rightarrow> 1 | Some i \<Rightarrow> i)"

text \<open>
  Subscripting a Python list, \<^verbatim>\<open>xs[i]\<close>: the indices \<open>0 .. len - 1\<close> read from the
  front, the indices \<open>-len .. -1\<close> from the back, every other index raises IndexError.
\<close>

definition py_index :: "'a list \<Rightarrow> int \<Rightarrow> error + 'a" where
  "py_index xs i =
     (if 0 \<le> i \<and> i < int (length xs) then Inr (xs ! nat i)
      else if - int (length xs) \<le> i \<and> i < 0 then Inr (xs ! nat (int (length xs) + i))
      else Inl IndexError)"

text \<open>
  \<^verbatim>\<open>
  def detokenize(self, number):
      return self.index_to_word[number]
  \<close>
\<close>

definition detokenize :: "string list \<Rightarrow> int \<Rightarrow> error + string" where
  "detokenize index_to_word number = py_index index_to_word number"

subsection \<open>Corpus preparation\<close>

text \<open>
  \<^verbatim>\<open>
  vectorize_layer = TextVectorization(
      standardize=custom_standardization,
      max_tokens=vocab_size - 1,
      output_mode="int",
      output_sequence_length=maxlen + 1,
  )
  \<close>
  The layer belongs to the framework. Standardising, splitting and looking each word up
  in the adapted vocabulary is the parameter \<open>tokens_of\<close>; with
  \<open>output_sequence_length\<close> set, the layer then cuts every sequence to that length or
  fills it with zeros on the right. The module constant \<open>maxlen\<close> (100 in the notebook)
  is an explicit argument.
\<close>

definition output_sequence :: "nat \<Rightarrow> int list \<Rightarrow> int list" where
  "output_sequence n toks = take n toks @ replicate (n - length toks) 0"

definition vectorize_layer :: "nat \<Rightarrow> (string \<Rightarrow> int list) \<Rightarrow> string list \<Rightarrow> int list list" where
  "vectorize_layer maxlen tokens_of text =
     map (\<lambda>s. output_sequence (maxlen + 1) (tokens_of s)) text"

text \<open>
  \<^verbatim>\<open>
  def prepare_lm_inputs_labels(text):
      text = tf.expand_dims(text, -1)
      tokenized_sentences = vectorize_layer(text)
      x = tokenized_sentences[:, :-1]
      y = tokenized_sentences[:, 1:]
      return x, y
  \<close>
  The slice \<^verbatim>\<open>[:, :-1]\<close> drops the last column, \<^verbatim>\<open>[:, 1:]\<close> the first.
\<close>

definition prepare_lm_inputs_labels ::
  "nat \<Rightarrow> (string \<Rightarrow> int list) \<Rightarrow> string list \<Rightarrow> int list list \<times> int list list" where
  "prepare_lm_inputs_labels maxlen tokens_of text =
     (let tokenized_sentences = vectorize_layer maxlen tokens_of text;
          x = map butlast tokenized_sentences;
          y = map (drop 1) tokenized_sentences
      in (x, y))"

subsection \<open>Multi-head self-attention: construction\<close>

text \<open>Python's \<^verbatim>\<open>str\<close> of an integer, as the f-string of the error message renders it.\<close>

fun digits :: "nat \<Rightarrow> string" where
  "digits n = (if n < 10 then [''0123456789'' ! n]
               else digits (n div 10) @ [''0123456789'' ! (n mod 10)])"

declare digits.simps [simp del]

definition str_int :: "int \<Rightarrow> string" where
  "str_int i = (if i < 0 then CHR ''-'' # digits (nat (- i)) else digits (nat i))"

text \<open>
  \<^verbatim>\<open>
  def __init__(self, embed_dim, num_heads=8):
      super(MultiHeadSelfAttention, self).__init__()
      self.embed_dim = embed_dim
      self.num_heads = num_heads
      if embed_dim % num_heads != 0:
          raise ValueError(
              f"embedding dimension = {embed_dim} should be divisible by number of heads = {num_heads}"
          )
      self.projection_dim = embed_dim // num_heads
      self.query_dense = layers.Dense(embed_dim)
      self.key_dense = layers.Dense(embed_dim)
      self.value_dense = layers.Dense(embed_dim)
      self.combine_heads = layers.Dense(embed_dim)
  \<close>
  Python's \<^verbatim>\<open>%\<close> and \<^verbatim>\<open>//\<close> on integers round towards minus infinity, as \<open>mod\<close> and
  \<open>div\<close> on \<open>int\<close> do, and raise ZeroDivisionError for a zero divisor, where HOL would
  return a value. The arguments carry a prime, the fields of \<open>self\<close> their names.

  A dense layer that has not been called yet is its configuration; the framework
  creates its weights at the first call. The framework's constructor
  \<^verbatim>\<open>layers.Dense(units, activation)\<close> checks \<open>units\<close> and raises a ValueError for a
  number it does not accept, so each of the four last lines of the constructor can
  raise. Which numbers it accepts is the framework's, the parameter \<open>units_ok\<close>: it
  rejects the negative ones and accepts the positive ones (\<open>dense_check\<close>); whether it
  accepts zero is left open.
\<close>

record dense =
  units :: int
  activation :: "string option"

definition dense_units_message :: "int \<Rightarrow> string" where
  "dense_units_message units' =
     ''Received an invalid value for `units`, expected a positive integer. Received: units=''
       @ str_int units'"

definition layers_Dense :: "(int \<Rightarrow> bool) \<Rightarrow> int \<Rightarrow> string option \<Rightarrow> error + dense" where
  "layers_Dense units_ok units' activation' =
     (if \<not> units_ok units' then Inl (ValueError (dense_units_message units'))
      else Inr \<lparr> units = units', activation = activation' \<rparr>)"

definition dense_check :: "(int \<Rightarrow> bool) \<Rightarrow> bool" where
  "dense_check units_ok \<longleftrightarrow>
     (\<forall>units'. 0 < units' \<longrightarrow> units_ok units') \<and> (\<forall>units'. units' < 0 \<longrightarrow> \<not> units_ok units')"

record MultiHeadSelfAttention =
  embed_dim :: int
  num_heads :: int
  projection_dim :: int
  query_dense :: dense
  key_dense :: dense
  value_dense :: dense
  combine_heads :: dense

definition divisibility_message :: "int \<Rightarrow> int \<Rightarrow> string" where
  "divisibility_message embed_dim' num_heads' =
     ''embedding dimension = '' @ str_int embed_dim'
       @ '' should be divisible by number of heads = '' @ str_int num_heads'"

definition MultiHeadSelfAttention_init ::
  "(int \<Rightarrow> bool) \<Rightarrow> int \<Rightarrow> int \<Rightarrow> error + MultiHeadSelfAttention" where
  "MultiHeadSelfAttention_init units_ok embed_dim' num_heads' =
     (if num_heads' = 0 then Inl ZeroDivisionError
      else if embed_dim' mod num_heads' \<noteq> 0
        then Inl (ValueError (divisibility_message embed_dim' num_heads'))
      else
        (case layers_Dense units_ok embed_dim' None of
           Inl e \<Rightarrow> Inl e
         | Inr query_dense' \<Rightarrow>
        (case layers_Dense units_ok embed_dim' None of
           Inl e \<Rightarrow> Inl e
         | Inr key_dense' \<Rightarrow>
        (case layers_Dense units_ok embed_dim' None of
           Inl e \<Rightarrow> Inl e
         | Inr value_dense' \<Rightarrow>
        (case layers_Dense units_ok embed_dim' None of
           Inl e \<Rightarrow> Inl e
         | Inr combine_heads' \<Rightarrow>
             Inr \<lparr> embed_dim = embed_dim', num_heads = num_heads',
                   projection_dim = embed_dim' div num_heads',
                   query_dense = query_dense', key_dense = key_dense',
                   value_dense = value_dense', combine_heads = combine_heads' \<rparr>)))))"

subsection \<open>Token and position embedding\<close>

text \<open>
  \<^verbatim>\<open>
  def call(self, x):
      maxlen = tf.shape(x)[-1]
      positions = tf.range(start=0, limit=maxlen, delta=1)
      positions = self.pos_emb(positions)
      x = self.token_emb(x)
      return x + positions
  \<close>
  The two embedding layers belong to the framework: each is a table that sends an index
  to its row, applied to every entry of its input. The input \<open>x\<close> is a batch of rows of
  token indices; the sum broadcasts the position rows over the batch.
\<close>

record TokenAndPositionEmbedding =
  token_emb :: "int \<Rightarrow> real list"
  pos_emb :: "int \<Rightarrow> real list"

definition vadd :: "real list \<Rightarrow> real list \<Rightarrow> real list" where
  "vadd u v = map2 (+) u v"

definition last_dim2 :: "'a list list \<Rightarrow> nat" where
  "last_dim2 x = (case x of [] \<Rightarrow> 0 | r # _ \<Rightarrow> length r)"

definition TokenAndPositionEmbedding_call ::
  "TokenAndPositionEmbedding \<Rightarrow> int list list \<Rightarrow> real list list list" where
  "TokenAndPositionEmbedding_call self x =
     (let maxlen = last_dim2 x;
          positions = tf_range (int maxlen);
          positions = map (pos_emb self) positions;
          x = map (map (token_emb self)) x
      in map (\<lambda>row. map2 vadd row positions) x)"

subsection \<open>Sampling from the top-k logits\<close>

text \<open>
  Three library functions are modelled from their documentation, over the reals.
  \<^item> \<^verbatim>\<open>tf.math.top_k(logits, k, sorted=True)\<close> returns the \<open>k\<close> largest entries in
    descending order together with their positions; of two equal entries the one at
    the lower position comes first. It rejects a \<open>k\<close> that is negative or larger than
    the number of entries.
  \<^item> \<^verbatim>\<open>softmax\<close> divides the exponential of every entry by the sum of the
    exponentials.
  \<^item> \<^verbatim>\<open>np.random.choice(a, p=p)\<close> checks its arguments, forms the running sums of
    \<open>p\<close> divided by their last, draws a uniform number \<open>u\<close> from \<open>[0, 1)\<close> and returns
    the entry of \<open>a\<close> at the first position whose running sum exceeds \<open>u\<close>. The number
    drawn is the argument \<open>u\<close> of the model.
\<close>

definition tf_math_top_k :: "real list \<Rightarrow> int \<Rightarrow> error + (real list \<times> nat list)" where
  "tf_math_top_k logits k' =
     (if k' < 0 \<or> int (length logits) < k'
      then Inl (InvalidArgumentError ''input must have at least k columns'')
      else (let indices = take (nat k') (sort_key (\<lambda>i. - (logits ! i)) [0..<length logits])
            in Inr (map (\<lambda>i. logits ! i) indices, indices)))"

definition softmax :: "real list \<Rightarrow> real list" where
  "softmax xs = map (\<lambda>x. exp x / sum_list (map exp xs)) xs"

fun cumsum_from :: "real \<Rightarrow> real list \<Rightarrow> real list" where
  "cumsum_from acc [] = []"
| "cumsum_from acc (x # xs) = (acc + x) # cumsum_from (acc + x) xs"

definition cumsum :: "real list \<Rightarrow> real list" where
  "cumsum xs = cumsum_from 0 xs"

definition searchsorted_right :: "real list \<Rightarrow> real \<Rightarrow> nat" where
  "searchsorted_right cdf u = length (takeWhile (\<lambda>c. c \<le> u) cdf)"

definition choice_atol :: real where
  "choice_atol = sqrt (1 / 2 ^ 23)"

definition np_random_choice :: "int list \<Rightarrow> real list \<Rightarrow> real \<Rightarrow> error + int" where
  "np_random_choice a p u =
     (if a = [] then Inl (ValueError ''a cannot be empty unless no samples are taken'')
      else if length p \<noteq> length a then Inl (ValueError ''a and p must have same size'')
      else if (\<exists>x \<in> set p. x < 0) then Inl (ValueError ''probabilities are not non-negative'')
      else if \<bar>sum_list p - 1\<bar> > choice_atol
        then Inl (ValueError ''probabilities do not sum to 1'')
      else (let cdf = cumsum p;
                cdf = map (\<lambda>c. c / last cdf) cdf;
                idx = searchsorted_right cdf u
            in py_index a (int idx)))"

text \<open>
  \<^verbatim>\<open>
  def sample_from(self, logits):
      logits, indices = tf.math.top_k(logits, k=self.k, sorted=True)
      indices = np.asarray(indices).astype("int32")
      preds = keras.activations.softmax(tf.expand_dims(logits, 0))[0]
      preds = np.asarray(preds).astype("float32")
      return np.random.choice(indices, p=preds)
  \<close>
  The first argument is \<^verbatim>\<open>self.k\<close>.
\<close>

definition sample_from :: "int \<Rightarrow> real list \<Rightarrow> real \<Rightarrow> error + int" where
  "sample_from k' logits u =
     (case tf_math_top_k logits k' of
        Inl e \<Rightarrow> Inl e
      | Inr (logits, indices) \<Rightarrow>
          (let indices = map int indices;
               preds = softmax logits
           in np_random_choice indices preds u))"

subsection \<open>Float32 values\<close>

text \<open>
  The tensors of the attention layer and of the transformer block hold float32 numbers.
  A float32 value is a finite number, one of the two infinities, or NaN. The sign of
  zero is not kept, and a zero divisor counts as \<open>+0\<close> (the only divisor of the layer is
  a square root). An operation on finite operands computes the exact result and rounds
  it: \<open>rnd\<close> is the rounding of float32 to the nearest representable number, as if the
  exponent had no upper bound, and is a parameter of the model; a rounded result beyond
  the largest float32, \<open>2^128 - 2^104\<close>, is an infinity. The rules for infinities and NaN are
  those of IEEE 754: NaN spreads, \<open>inf - inf\<close>, \<open>inf * 0\<close>, \<open>0 / 0\<close> and \<open>inf / inf\<close> are NaN.
\<close>

datatype f32 = Fin real | PInf | NInf | NaN

definition f32_max :: real where
  "f32_max = 2 ^ 128 - 2 ^ 104"

definition f32_of :: "(real \<Rightarrow> real) \<Rightarrow> real \<Rightarrow> f32" where
  "f32_of rnd r =
     (if rnd r > f32_max then PInf else if rnd r < - f32_max then NInf else Fin (rnd r))"

fun is_finite :: "f32 \<Rightarrow> bool" where
  "is_finite (Fin x) = True"
| "is_finite v = False"

fun is_negative :: "f32 \<Rightarrow> bool" where
  "is_negative (Fin x) = (x < 0)"
| "is_negative NInf = True"
| "is_negative v = False"

definition f32_inf :: "bool \<Rightarrow> f32" where
  "f32_inf negative = (if negative then NInf else PInf)"

fun fneg :: "f32 \<Rightarrow> f32" where
  "fneg (Fin x) = Fin (- x)"
| "fneg PInf = NInf"
| "fneg NInf = PInf"
| "fneg NaN = NaN"

fun fadd :: "(real \<Rightarrow> real) \<Rightarrow> f32 \<Rightarrow> f32 \<Rightarrow> f32" where
  "fadd rnd NaN b = NaN"
| "fadd rnd a NaN = NaN"
| "fadd rnd (Fin x) (Fin y) = f32_of rnd (x + y)"
| "fadd rnd PInf NInf = NaN"
| "fadd rnd NInf PInf = NaN"
| "fadd rnd PInf b = PInf"
| "fadd rnd NInf b = NInf"
| "fadd rnd a PInf = PInf"
| "fadd rnd a NInf = NInf"

definition fsub :: "(real \<Rightarrow> real) \<Rightarrow> f32 \<Rightarrow> f32 \<Rightarrow> f32" where
  "fsub rnd a b = fadd rnd a (fneg b)"

fun fmul :: "(real \<Rightarrow> real) \<Rightarrow> f32 \<Rightarrow> f32 \<Rightarrow> f32" where
  "fmul rnd NaN b = NaN"
| "fmul rnd a NaN = NaN"
| "fmul rnd (Fin x) (Fin y) = f32_of rnd (x * y)"
| "fmul rnd a b =
     (if a = Fin 0 \<or> b = Fin 0 then NaN else f32_inf (is_negative a \<noteq> is_negative b))"

fun fdiv :: "(real \<Rightarrow> real) \<Rightarrow> f32 \<Rightarrow> f32 \<Rightarrow> f32" where
  "fdiv rnd NaN b = NaN"
| "fdiv rnd a NaN = NaN"
| "fdiv rnd (Fin x) (Fin y) =
     (if y = 0 then (if x = 0 then NaN else f32_inf (x < 0)) else f32_of rnd (x / y))"
| "fdiv rnd (Fin x) b = Fin 0"
| "fdiv rnd a (Fin y) = f32_inf (is_negative a \<noteq> (y < 0))"
| "fdiv rnd a b = NaN"

fun fsqrt :: "(real \<Rightarrow> real) \<Rightarrow> f32 \<Rightarrow> f32" where
  "fsqrt rnd (Fin x) = (if x < 0 then NaN else f32_of rnd (sqrt x))"
| "fsqrt rnd PInf = PInf"
| "fsqrt rnd NInf = NaN"
| "fsqrt rnd NaN = NaN"

fun fexp :: "(real \<Rightarrow> real) \<Rightarrow> f32 \<Rightarrow> f32" where
  "fexp rnd (Fin x) = f32_of rnd (exp x)"
| "fexp rnd PInf = PInf"
| "fexp rnd NInf = Fin 0"
| "fexp rnd NaN = NaN"

fun fmax :: "f32 \<Rightarrow> f32 \<Rightarrow> f32" where
  "fmax NaN b = NaN"
| "fmax a NaN = NaN"
| "fmax PInf b = PInf"
| "fmax a PInf = PInf"
| "fmax NInf b = b"
| "fmax a NInf = a"
| "fmax (Fin x) (Fin y) = Fin (max x y)"

text \<open>The cast of a comparison to float32 gives the numbers one and zero.\<close>

instantiation f32 :: zero_neq_one
begin

definition zero_f32 :: f32 where
  "zero_f32 = Fin 0"

definition one_f32 :: f32 where
  "one_f32 = Fin 1"

instance
  by standard (simp add: zero_f32_def one_f32_def)

end

text \<open>
  What is used of the rounding: a number that is a rounded result is not changed by
  rounding it again, and the numbers 0, 1, 10000 and -10000 are float32 numbers.
  \<open>f32_valid\<close> says that a value is one a float32 tensor can hold.
\<close>

definition rounding :: "(real \<Rightarrow> real) \<Rightarrow> bool" where
  "rounding rnd \<longleftrightarrow>
     (\<forall>x. rnd (rnd x) = rnd x) \<and> rnd 0 = 0 \<and> rnd 1 = 1
     \<and> rnd 10000 = 10000 \<and> rnd (- 10000) = - 10000"

fun f32_valid :: "(real \<Rightarrow> real) \<Rightarrow> f32 \<Rightarrow> bool" where
  "f32_valid rnd (Fin x) = (rnd x = x \<and> \<bar>x\<bar> \<le> f32_max)"
| "f32_valid rnd v = True"

subsection \<open>Tensors\<close>

text \<open>
  A tensor of rank \<open>n\<close> is a list nested \<open>n\<close> deep, all lists of one level of equal
  length; \<open>shape3\<close> and \<open>shape4\<close> say so. \<^verbatim>\<open>tf.shape\<close> reads the lengths along
  the first entries (\<open>slice0\<close>); on an axis of length zero the deeper lengths read as
  zero. The operations below are the framework's, on operands whose shapes fit; the
  framework rejects the others. The order in which the framework adds the products of
  a matrix product is its own; here they are added from left to right.
\<close>

type_synonym tensor3 = "f32 list list list"
type_synonym tensor4 = "f32 list list list list"

definition shape2 :: "'a list list \<Rightarrow> nat \<Rightarrow> nat \<Rightarrow> bool" where
  "shape2 t r c \<longleftrightarrow> length t = r \<and> (\<forall>row \<in> set t. length row = c)"

definition shape3 :: "'a list list list \<Rightarrow> nat \<Rightarrow> nat \<Rightarrow> nat \<Rightarrow> bool" where
  "shape3 t b r c \<longleftrightarrow> length t = b \<and> (\<forall>m \<in> set t. shape2 m r c)"

definition shape4 :: "'a list list list list \<Rightarrow> nat \<Rightarrow> nat \<Rightarrow> nat \<Rightarrow> nat \<Rightarrow> bool" where
  "shape4 t b h r c \<longleftrightarrow> length t = b \<and> (\<forall>x \<in> set t. shape3 x h r c)"

definition slice0 :: "'a list list \<Rightarrow> 'a list" where
  "slice0 t = (case t of [] \<Rightarrow> [] | x # _ \<Rightarrow> x)"

definition dot :: "(real \<Rightarrow> real) \<Rightarrow> f32 list \<Rightarrow> f32 list \<Rightarrow> f32" where
  "dot rnd u v = fold (\<lambda>(x, y) acc. fadd rnd acc (fmul rnd x y)) (zip u v) (Fin 0)"

text \<open>\<^verbatim>\<open>tf.matmul(a, b, transpose_b=True)\<close> on two matrices: rows of \<open>a\<close> against rows of \<open>b\<close>.\<close>

definition matmul_transpose_b ::
  "(real \<Rightarrow> real) \<Rightarrow> f32 list list \<Rightarrow> f32 list list \<Rightarrow> f32 list list" where
  "matmul_transpose_b rnd a b = map (\<lambda>u. map (\<lambda>v. dot rnd u v) b) a"

text \<open>\<^verbatim>\<open>tf.matmul(a, b)\<close> on two matrices: rows of \<open>a\<close> against columns of \<open>b\<close>.\<close>

definition matmul ::
  "(real \<Rightarrow> real) \<Rightarrow> f32 list list \<Rightarrow> f32 list list \<Rightarrow> f32 list list" where
  "matmul rnd a b =
     map (\<lambda>u. map (\<lambda>j. dot rnd u (map (\<lambda>row. row ! j) b)) [0..<length (slice0 b)]) a"

text \<open>
  \<^verbatim>\<open>tf.transpose(x, perm=[0, 2, 1, 3])\<close> exchanges the two middle axes; on one entry
  of the batch it is \<open>transpose_12\<close>.
\<close>

definition transpose_12 :: "'a list list \<Rightarrow> 'a list list" where
  "transpose_12 m = map (\<lambda>c. map (\<lambda>a. m ! a ! c) [0..<length m]) [0..<length (slice0 m)]"

text \<open>
  \<^verbatim>\<open>tf.reshape\<close> keeps the entries in row-major order and regroups them. Both
  reshapes of the layer keep the batch axis (\<open>batch_size\<close> is the length of that axis),
  so each entry of the batch is flattened and cut into groups by itself.
\<close>

function chunks :: "nat \<Rightarrow> 'a list \<Rightarrow> 'a list list" where
  "chunks n xs = (if n = 0 \<or> xs = [] then [] else take n xs # chunks n (drop n xs))"
  by pat_completeness auto
termination
  by (relation "measure (\<lambda>(n, xs). length xs)") auto

declare chunks.simps [simp del]

definition reshape_heads :: "nat \<Rightarrow> nat \<Rightarrow> tensor3 \<Rightarrow> tensor4" where
  "reshape_heads h p x = map (\<lambda>b. chunks h (chunks p (concat b))) x"

definition reshape_embed :: "nat \<Rightarrow> tensor4 \<Rightarrow> tensor3" where
  "reshape_embed e x = map (\<lambda>b. chunks e (concat (concat b))) x"

definition tadd :: "(real \<Rightarrow> real) \<Rightarrow> tensor3 \<Rightarrow> tensor3 \<Rightarrow> tensor3" where
  "tadd rnd x y = map2 (map2 (map2 (fadd rnd))) x y"

text \<open>
  \<^verbatim>\<open>tf.nn.softmax\<close> along the last axis: the framework subtracts the largest entry
  of the row before it takes exponentials, so that they do not overflow. How a kernel of
  the framework rounds inside (the order of the sum, a division by the sum or a
  multiplication with its reciprocal) is its own; here the sum runs from left to right
  and the exponentials are divided by it.
\<close>

definition tf_nn_softmax :: "(real \<Rightarrow> real) \<Rightarrow> f32 list \<Rightarrow> f32 list" where
  "tf_nn_softmax rnd xs =
     (let m = fold fmax xs NInf;
          es = map (\<lambda>x. fexp rnd (fsub rnd x m)) xs;
          total = fold (\<lambda>e acc. fadd rnd acc e) es (Fin 0)
      in map (\<lambda>e. fdiv rnd e total) es)"

subsection \<open>Scaled dot-product attention\<close>

text \<open>
  \<^verbatim>\<open>
  def attention(self, query, key, value):
      score = tf.matmul(query, key, transpose_b=True)
      dim_key = tf.cast(tf.shape(key)[-1], tf.float32)
      scaled_score = score / tf.math.sqrt(dim_key)

      # prevent information flow from future tokens
      shape = tf.shape(scaled_score)
      dim_dest, dim_src = shape[2], shape[3]
      attention_mask = self.causal_attention_mask(
          dim_dest, dim_src, scaled_score.dtype
      )
      attention_mask = tf.reshape(attention_mask, [1, 1, dim_dest, dim_src])
      scaled_score = scaled_score * attention_mask - 1e4 * (1 - attention_mask)

      weights = tf.nn.softmax(scaled_score, axis=-1)
      output = tf.matmul(weights, value)
      return output, weights
  \<close>
  \<open>scaled_scores\<close> is the method up to the first assignment to \<open>scaled_score\<close>, and
  \<open>attention_scores\<close> up to the second; the mask of shape
  \<open>[1, 1, dim_dest, dim_src]\<close> broadcasts over batch and heads. The Python numbers
  \<^verbatim>\<open>1e4\<close> and \<^verbatim>\<open>1\<close> become the float32 numbers 10000 and 1.
\<close>

definition scaled_scores :: "(real \<Rightarrow> real) \<Rightarrow> tensor4 \<Rightarrow> tensor4 \<Rightarrow> tensor4" where
  "scaled_scores rnd query key =
     (let score = map2 (map2 (matmul_transpose_b rnd)) query key;
          dim_key = f32_of rnd (real (length (slice0 (slice0 (slice0 key)))));
          scaled_score = map (map (map (map (\<lambda>s. fdiv rnd s (fsqrt rnd dim_key))))) score
      in scaled_score)"

definition attention_scores :: "(real \<Rightarrow> real) \<Rightarrow> tensor4 \<Rightarrow> tensor4 \<Rightarrow> tensor4" where
  "attention_scores rnd query key =
     (let scaled_score = scaled_scores rnd query key;
          dim_dest = length (slice0 (slice0 scaled_score));
          dim_src = length (slice0 (slice0 (slice0 scaled_score)));
          attention_mask = causal_attention_mask (int dim_dest) (int dim_src)
      in map (map (\<lambda>m. map2 (map2 (\<lambda>s a.
                fsub rnd (fmul rnd s a) (fmul rnd (Fin 10000) (fsub rnd (Fin 1) a))))
              m attention_mask))
           scaled_score)"

definition attention ::
  "(real \<Rightarrow> real) \<Rightarrow> tensor4 \<Rightarrow> tensor4 \<Rightarrow> tensor4 \<Rightarrow> tensor4 \<times> tensor4" where
  "attention rnd query key value =
     (let scaled_score = attention_scores rnd query key;
          weights = map (map (map (tf_nn_softmax rnd))) scaled_score;
          output = map2 (map2 (matmul rnd)) weights value
      in (output, weights))"

subsection \<open>Multi-head self-attention: the forward pass\<close>

text \<open>
  A layer of the framework that has been called (a dense layer with its weights, a
  normalization, a dropout in either mode) is a function on tensors of rank 3. The
  functions of the four dense layers of the attention layer are the fields of
  \<open>attention_layers\<close>, in the order of the constructor.
\<close>

type_synonym layer = "tensor3 \<Rightarrow> tensor3"

record attention_layers =
  query_dense_fn :: layer
  key_dense_fn :: layer
  value_dense_fn :: layer
  combine_heads_fn :: layer

text \<open>
  \<^verbatim>\<open>
  def separate_heads(self, x, batch_size):
      x = tf.reshape(x, (batch_size, -1, self.num_heads, self.projection_dim))
      return tf.transpose(x, perm=[0, 2, 1, 3])
  \<close>
\<close>

definition separate_heads :: "MultiHeadSelfAttention \<Rightarrow> tensor3 \<Rightarrow> nat \<Rightarrow> tensor4" where
  "separate_heads self x batch_size =
     (let x = reshape_heads (nat (num_heads self)) (nat (projection_dim self)) x
      in map transpose_12 x)"

text \<open>
  \<^verbatim>\<open>
  def call(self, inputs):
      batch_size = tf.shape(inputs)[0]
      query = self.query_dense(inputs)
      key = self.key_dense(inputs)
      value = self.value_dense(inputs)
      query = self.separate_heads(query, batch_size)
      key = self.separate_heads(key, batch_size)
      value = self.separate_heads(value, batch_size)
      attention, weights = self.attention(query, key, value)
      attention = tf.transpose(attention, perm=[0, 2, 1, 3])
      concat_attention = tf.reshape(attention, (batch_size, -1, self.embed_dim))
      output = self.combine_heads(concat_attention)
      return output
  \<close>
\<close>

definition MultiHeadSelfAttention_call ::
  "(real \<Rightarrow> real) \<Rightarrow> MultiHeadSelfAttention \<Rightarrow> attention_layers \<Rightarrow> tensor3 \<Rightarrow> tensor3" where
  "MultiHeadSelfAttention_call rnd self fns inputs =
     (let batch_size = length inputs;
          query = query_dense_fn fns inputs;
          key = key_dense_fn fns inputs;
          value = value_dense_fn fns inputs;
          query = separate_heads self query batch_size;
          key = separate_heads self key batch_size;
          value = separate_heads self value batch_size;
          (attention_out, weights) = attention rnd query key value;
          attention_out = map transpose_12 attention_out;
          concat_attention = reshape_embed (nat (embed_dim self)) attention_out;
          output = combine_heads_fn fns concat_attention
      in output)"

subsection \<open>Transformer block\<close>

text \<open>
  \<^verbatim>\<open>
  def __init__(self, embed_dim, num_heads, ff_dim, rate=0.1):
      super(TransformerBlock, self).__init__()
      self.att = MultiHeadSelfAttention(embed_dim, num_heads)
      self.ffn = keras.Sequential(
          [layers.Dense(ff_dim, activation="relu"), layers.Dense(embed_dim),]
      )
      self.layernorm1 = layers.LayerNormalization(epsilon=1e-6)
      self.layernorm2 = layers.LayerNormalization(epsilon=1e-6)
      self.dropout1 = layers.Dropout(rate)
      self.dropout2 = layers.Dropout(rate)
  \<close>
  Every line but the two normalizations can raise: the attention layer's constructor as
  above, \<^verbatim>\<open>layers.Dense\<close> for units it does not accept, and the framework's
  \<^verbatim>\<open>layers.Dropout(rate)\<close> for a rate outside \<open>[0, 1]\<close> (its message, which prints the
  rate, is shortened here).
\<close>

record layer_normalization =
  epsilon :: real

record dropout =
  rate :: real

definition layers_Dropout :: "real \<Rightarrow> error + dropout" where
  "layers_Dropout rate' =
     (if \<not> (0 \<le> rate' \<and> rate' \<le> 1)
      then Inl (ValueError ''Invalid value received for `rate`, expected a value between 0 and 1.'')
      else Inr \<lparr> rate = rate' \<rparr>)"

record TransformerBlock =
  att :: MultiHeadSelfAttention
  ffn :: "dense list"
  layernorm1 :: layer_normalization
  layernorm2 :: layer_normalization
  dropout1 :: dropout
  dropout2 :: dropout

definition TransformerBlock_init ::
  "(int \<Rightarrow> bool) \<Rightarrow> int \<Rightarrow> int \<Rightarrow> int \<Rightarrow> real \<Rightarrow> error + TransformerBlock" where
  "TransformerBlock_init units_ok embed_dim' num_heads' ff_dim rate' =
     (case MultiHeadSelfAttention_init units_ok embed_dim' num_heads' of
        Inl e \<Rightarrow> Inl e
      | Inr att' \<Rightarrow>
     (case layers_Dense units_ok ff_dim (Some ''relu'') of
        Inl e \<Rightarrow> Inl e
      | Inr ffn1 \<Rightarrow>
     (case layers_Dense units_ok embed_dim' None of
        Inl e \<Rightarrow> Inl e
      | Inr ffn2 \<Rightarrow>
     (case layers_Dropout rate' of
        Inl e \<Rightarrow> Inl e
      | Inr dropout1' \<Rightarrow>
     (case layers_Dropout rate' of
        Inl e \<Rightarrow> Inl e
      | Inr dropout2' \<Rightarrow>
          Inr \<lparr> att = att', ffn = [ffn1, ffn2],
                layernorm1 = \<lparr> epsilon = 1 / 10 ^ 6 \<rparr>,
                layernorm2 = \<lparr> epsilon = 1 / 10 ^ 6 \<rparr>,
                dropout1 = dropout1', dropout2 = dropout2' \<rparr>)))))"

text \<open>
  The functions of the called sublayers of a block; \<open>ffn_fns\<close> lists those of the
  layers of the sequential model, which applies them in order.
\<close>

record block_layers =
  att_fns :: attention_layers
  ffn_fns :: "layer list"
  layernorm1_fn :: layer
  layernorm2_fn :: layer
  dropout1_fn :: layer
  dropout2_fn :: layer

definition keras_sequential :: "layer list \<Rightarrow> layer" where
  "keras_sequential fs x = fold (\<lambda>f acc. f acc) fs x"

text \<open>
  \<^verbatim>\<open>
  def call(self, inputs):
      attention_output = self.att(inputs)
      attention_output = self.dropout1(attention_output)
      out1 = self.layernorm1(inputs + attention_output)
      ffn_output = self.ffn(out1)
      ffn_output = self.dropout2(ffn_output)
      return self.layernorm2(out1 + ffn_output)
  \<close>
\<close>

definition TransformerBlock_call ::
  "(real \<Rightarrow> real) \<Rightarrow> TransformerBlock \<Rightarrow> block_layers \<Rightarrow> tensor3 \<Rightarrow> tensor3" where
  "TransformerBlock_call rnd self fns inputs =
     (let attention_output = MultiHeadSelfAttention_call rnd (att self) (att_fns fns) inputs;
          attention_output = dropout1_fn fns attention_output;
          out1 = layernorm1_fn fns (tadd rnd inputs attention_output);
          ffn_output = keras_sequential (ffn_fns fns) out1;
          ffn_output = dropout2_fn fns ffn_output
      in layernorm2_fn fns (tadd rnd out1 ffn_output))"

text \<open>
  What the framework promises of the called layers, as far as shapes go: a dense layer
  with \<open>units\<close> units sends the last axis from its input width to \<open>units\<close>; a
  normalization and a dropout keep the shape. \<open>built\<close> says that the functions \<open>fns\<close>
  are those of the layers the constructor configured.
\<close>

definition dense_layer :: "nat \<Rightarrow> dense \<Rightarrow> layer \<Rightarrow> bool" where
  "dense_layer d_in d f \<longleftrightarrow> (\<forall>t b s. shape3 t b s d_in \<longrightarrow> shape3 (f t) b s (nat (units d)))"

definition shape_preserving :: "nat \<Rightarrow> layer \<Rightarrow> bool" where
  "shape_preserving d f \<longleftrightarrow> (\<forall>t b s. shape3 t b s d \<longrightarrow> shape3 (f t) b s d)"

fun dense_chain :: "nat \<Rightarrow> dense list \<Rightarrow> layer list \<Rightarrow> bool" where
  "dense_chain d_in [] [] = True"
| "dense_chain d_in (d # ds) (f # fs) = (dense_layer d_in d f \<and> dense_chain (nat (units d)) ds fs)"
| "dense_chain d_in _ _ = False"

definition built :: "TransformerBlock \<Rightarrow> block_layers \<Rightarrow> bool" where
  "built self fns \<longleftrightarrow>
     (let e = nat (embed_dim (att self)) in
        dense_layer e (query_dense (att self)) (query_dense_fn (att_fns fns))
      \<and> dense_layer e (key_dense (att self)) (key_dense_fn (att_fns fns))
      \<and> dense_layer e (value_dense (att self)) (value_dense_fn (att_fns fns))
      \<and> dense_layer e (combine_heads (att self)) (combine_heads_fn (att_fns fns))
      \<and> dense_chain e (ffn self) (ffn_fns fns)
      \<and> shape_preserving e (layernorm1_fn fns) \<and> shape_preserving e (layernorm2_fn fns)
      \<and> shape_preserving e (dropout1_fn fns) \<and> shape_preserving e (dropout2_fn fns))"

subsection \<open>The text generation callback\<close>

text \<open>
  \<^verbatim>\<open>
  def __init__(self, max_tokens, start_tokens, index_to_word, top_k=10, print_every=1):
      self.max_tokens = max_tokens
      self.start_tokens = start_tokens
      self.index_to_word = index_to_word
      self.print_every = print_every
      self.k = top_k
  \<close>
  The field \<^verbatim>\<open>self.k\<close> is \<open>top_k\<close> here.
\<close>

record TextGenerator =
  max_tokens :: int
  start_tokens :: "int list"
  index_to_word :: "string list"
  print_every :: int
  top_k :: int

text \<open>
  \<^verbatim>\<open>
  def on_epoch_end(self, epoch, logs=None):
      start_tokens = [_ for _ in self.start_tokens]
      if (epoch + 1) % self.print_every != 0:
          return
      num_tokens_generated = 0
      tokens_generated = []
      while num_tokens_generated <= self.max_tokens:
          pad_len = maxlen - len(start_tokens)
          sample_index = len(start_tokens) - 1
          if pad_len < 0:
              x = start_tokens[:maxlen]
              sample_index = maxlen - 1
          elif pad_len > 0:
              x = start_tokens + [0] * pad_len
          else:
              x = start_tokens
          x = np.array([x])
          y, _ = self.model.predict(x)
          sample_token = self.sample_from(y[0][sample_index])
          tokens_generated.append(sample_token)
          start_tokens.append(sample_token)
          num_tokens_generated = len(tokens_generated)
      txt = " ".join(
          [self.detokenize(_) for _ in self.start_tokens + tokens_generated]
      )
      print(f"generated text:\n{txt}\n")
  \<close>
  The module constant \<open>maxlen\<close> is an argument. The trained model is the argument
  \<open>predict\<close>: it sends the one row \<open>x\<close> to \<open>y[0]\<close>, one logits vector for each
  position. The random numbers that \<^verbatim>\<open>np.random.choice\<close> draws are the stream
  \<open>rand\<close>, read at the number of draws made so far. Besides the three variables of the
  loop, the state holds \<open>fed\<close>, the log of every \<open>x\<close> given to the model with the
  \<open>sample_index\<close> read from its output.
\<close>

definition model_input :: "nat \<Rightarrow> int list \<Rightarrow> int list \<times> int" where
  "model_input maxlen start_tokens' =
     (let pad_len = int maxlen - int (length start_tokens');
          sample_index = int (length start_tokens') - 1
      in if pad_len < 0 then (take maxlen start_tokens', int maxlen - 1)
         else if pad_len > 0 then (start_tokens' @ replicate (nat pad_len) 0, sample_index)
         else (start_tokens', sample_index))"

function generate_loop ::
  "TextGenerator \<Rightarrow> nat \<Rightarrow> (int list \<Rightarrow> real list list) \<Rightarrow> (nat \<Rightarrow> real)
   \<Rightarrow> int list \<times> int list \<times> int \<times> (int list \<times> int) list
   \<Rightarrow> error + (int list \<times> int list \<times> (int list \<times> int) list)" where
  "generate_loop self maxlen predict rand (start_tokens', tokens_generated, num_tokens_generated, fed) =
     (if num_tokens_generated \<le> max_tokens self then
        (case py_index (predict (fst (model_input maxlen start_tokens')))
                (snd (model_input maxlen start_tokens')) of
           Inl e \<Rightarrow> Inl e
         | Inr logits \<Rightarrow>
             (case sample_from (top_k self) logits (rand (length fed)) of
                Inl e \<Rightarrow> Inl e
              | Inr sample_token \<Rightarrow>
                  generate_loop self maxlen predict rand
                    (start_tokens' @ [sample_token],
                     tokens_generated @ [sample_token],
                     int (length (tokens_generated @ [sample_token])),
                     fed @ [model_input maxlen start_tokens'])))
      else Inr (start_tokens', tokens_generated, fed))"
  by pat_completeness auto
termination
  by (relation "measure (\<lambda>(self, maxlen, predict, rand, st, tg, num, fed).
        if num \<le> max_tokens self then 1 + nat (max_tokens self - int (length tg)) else 0)")
     auto

declare generate_loop.simps [simp del]

fun py_join :: "string \<Rightarrow> string list \<Rightarrow> string" where
  "py_join sep [] = []"
| "py_join sep [w] = w"
| "py_join sep (w # ws) = w @ sep @ py_join sep ws"

fun detokenize_all :: "string list \<Rightarrow> int list \<Rightarrow> error + string list" where
  "detokenize_all index_to_word' [] = Inr []"
| "detokenize_all index_to_word' (t # ts) =
     (case detokenize index_to_word' t of
        Inl e \<Rightarrow> Inl e
      | Inr w \<Rightarrow> (case detokenize_all index_to_word' ts of
                    Inl e \<Rightarrow> Inl e
                  | Inr ws \<Rightarrow> Inr (w # ws)))"

text \<open>
  The callback returns nothing; its result here is what it leaves behind: \<open>None\<close> when
  the epoch is skipped, else the final \<open>tokens_generated\<close> and the string \<open>txt\<close> that
  is printed under the heading \<^verbatim>\<open>generated text:\<close>.
\<close>

definition on_epoch_end ::
  "TextGenerator \<Rightarrow> nat \<Rightarrow> (int list \<Rightarrow> real list list) \<Rightarrow> (nat \<Rightarrow> real) \<Rightarrow> int
   \<Rightarrow> error + (int list \<times> string) option" where
  "on_epoch_end self maxlen predict rand epoch =
     (let start_tokens' = start_tokens self in
      if print_every self = 0 then Inl ZeroDivisionError
      else if (epoch + 1) mod print_every self \<noteq> 0 then Inr None
      else (case generate_loop self maxlen predict rand (start_tokens', [], 0, []) of
              Inl e \<Rightarrow> Inl e
            | Inr (start_tokens', tokens_generated, fed) \<Rightarrow>
                (case detokenize_all (index_to_word self) (start_tokens self @ tokens_generated) of
                   Inl e \<Rightarrow> Inl e
                 | Inr words \<Rightarrow> Inr (Some (tokens_generated, py_join '' '' words)))))"

subsection \<open>A small trained model for running the callback\<close>

text \<open>
  Six words, and a model that at every position puts all weight on the successor
  (modulo 6) of the token it reads: with \<open>top_k = 1\<close> the callback then counts upwards.
\<close>

definition example_model :: "int list \<Rightarrow> real list list" where
  "example_model x =
     map (\<lambda>t. map (\<lambda>j. if j = (t + 1) mod 6 then 1 else 0) [0, 1, 2, 3, 4, 5]) x"

definition example_generator :: TextGenerator where
  "example_generator =
     \<lparr> max_tokens = 5, start_tokens = [2, 3, 4],
       index_to_word = ['''', ''[UNK]'', ''this'', ''movie'', ''is'', ''good''],
       print_every = 1, top_k = 1 \<rparr>"

subsection \<open>Small layers for running the transformer block\<close>

text \<open>
  A dense layer of \<open>u\<close> units whose weights are zero and whose bias is one: every
  output entry is one. Normalization and dropout are replaced by the identity.
\<close>

definition example_dense_fn :: "nat \<Rightarrow> layer" where
  "example_dense_fn u t = map (map (\<lambda>v. replicate u (Fin 1))) t"

definition example_block_layers :: block_layers where
  "example_block_layers =
     \<lparr> att_fns = \<lparr> query_dense_fn = example_dense_fn 2, key_dense_fn = example_dense_fn 2,
                   value_dense_fn = example_dense_fn 2, combine_heads_fn = example_dense_fn 2 \<rparr>,
       ffn_fns = [example_dense_fn 3, example_dense_fn 2],
       layernorm1_fn = (\<lambda>t. t), layernorm2_fn = (\<lambda>t. t),
       dropout1_fn = (\<lambda>t. t), dropout2_fn = (\<lambda>t. t) \<rparr>"

section \<open>Properties\<close>

subsection \<open>Causal mask\<close>

lemma length_tf_range: "length (tf_range n) = nat n"
  by (simp add: tf_range_def)

lemma nth_tf_range: "i < nat n \<Longrightarrow> tf_range n ! i = int i"
  by (simp add: tf_range_def)

text \<open>
  Claim C2. For non-negative \<open>n_dest\<close> and \<open>n_src\<close> the mask has \<open>n_dest\<close> rows of
  \<open>n_src\<close> entries each, and the entry at row \<open>i\<close>, column \<open>j\<close> is 1 exactly when
  \<open>j - n_src + n_dest \<le> i\<close> and 0 otherwise. The mask is a function of its two
  arguments only, so two calls with the same arguments return the same matrix.
\<close>

theorem causal_attention_mask_spec:
  fixes M :: "('a::zero_neq_one) list list"
  assumes "0 \<le> n_dest" and "0 \<le> n_src" and "M = causal_attention_mask n_dest n_src"
  shows "length M = nat n_dest
       \<and> (\<forall>i < nat n_dest. length (M ! i) = nat n_src)
       \<and> (\<forall>i < nat n_dest. \<forall>j < nat n_src.
            M ! i ! j = (if int j - n_src + n_dest \<le> int i then 1 else 0))
       \<and> (\<forall>n_dest' n_src'. n_dest' = n_dest \<and> n_src' = n_src \<longrightarrow>
            causal_attention_mask n_dest' n_src' = M)"
  using assms by (simp add: causal_attention_mask_def length_tf_range nth_tf_range)

theorem causal_attention_mask_spec_witness:
  "(0::int) \<le> 2 \<and> (0::int) \<le> 3
   \<and> (causal_attention_mask 2 3 :: real list list) ! 0 ! 1 = 1
   \<and> (causal_attention_mask 2 3 :: real list list) ! 0 ! 2 = 0
   \<and> (causal_attention_mask 2 3 :: real list list) ! 1 ! 2 = 1
   \<and> length (causal_attention_mask 2 3 :: real list list) = 2"
  using causal_attention_mask_spec [of 2 3 "causal_attention_mask 2 3 :: real list list"] by simp

subsection \<open>Vocabulary round trip\<close>

lemma word_to_index_fold_absent:
  "w \<notin> set xs \<Longrightarrow>
   fold (\<lambda>(index, word) m. m(word \<mapsto> int index)) (enumerate n xs) m0 w = m0 w"
  by (induction xs arbitrary: n m0) auto

lemma word_to_index_fold_present:
  "w \<in> set xs \<Longrightarrow>
   \<exists>i < length xs. xs ! i = w \<and>
     fold (\<lambda>(index, word) m. m(word \<mapsto> int index)) (enumerate n xs) m0 w = Some (int (n + i))"
proof (induction xs arbitrary: m0 rule: rev_induct)
  case Nil
  then show ?case by simp
next
  case (snoc x xs)
  show ?case
  proof (cases "x = w")
    case True
    then have "(xs @ [x]) ! length xs = w" by simp
    moreover have "fold (\<lambda>(index, word) m. m(word \<mapsto> int index)) (enumerate n (xs @ [x])) m0 w
        = Some (int (n + length xs))"
      using True by (simp add: enumerate_append_eq)
    moreover have "length xs < length (xs @ [x])" by simp
    ultimately show ?thesis by blast
  next
    case False
    with snoc.prems have "w \<in> set xs" by simp
    from snoc.IH [OF this, of m0] obtain i where i: "i < length xs" "xs ! i = w"
      "fold (\<lambda>(index, word) m. m(word \<mapsto> int index)) (enumerate n xs) m0 w = Some (int (n + i))"
      by blast
    have "fold (\<lambda>(index, word) m. m(word \<mapsto> int index)) (enumerate n (xs @ [x])) m0 w
        = Some (int (n + i))"
      using False i(3) by (simp add: enumerate_append_eq)
    moreover have "(xs @ [x]) ! i = w" using i by (simp add: nth_append)
    moreover have "i < length (xs @ [x])" using i(1) by simp
    ultimately show ?thesis by blast
  qed
qed

lemma tokenize_in_vocab:
  assumes "w \<in> set vocab"
  shows "\<exists>i < length vocab. vocab ! i = w \<and> tokenize vocab w = int i"
proof -
  from word_to_index_fold_present [OF assms, of 0 Map.empty]
  obtain i where "i < length vocab" "vocab ! i = w" "word_to_index vocab w = Some (int i)"
    by (auto simp: word_to_index_def)
  then show ?thesis by (auto simp: tokenize_def)
qed

lemma tokenize_not_in_vocab: "w \<notin> set vocab \<Longrightarrow> tokenize vocab w = 1"
  by (simp add: tokenize_def word_to_index_def word_to_index_fold_absent)

text \<open>
  Claim C9. For every word of the vocabulary, tokenize returns an index at which the
  vocabulary holds that word, and detokenize of that index returns the word; every word
  that is not in the vocabulary tokenizes to the unknown index 1.
\<close>

theorem detokenize_tokenize_roundtrip:
  "(w \<in> set vocab \<longrightarrow>
      0 \<le> tokenize vocab w \<and> tokenize vocab w < int (length vocab)
      \<and> vocab ! nat (tokenize vocab w) = w
      \<and> detokenize vocab (tokenize vocab w) = Inr w)
   \<and> (w \<notin> set vocab \<longrightarrow> tokenize vocab w = 1)"
proof (intro conjI impI)
  assume "w \<in> set vocab"
  then obtain i where i: "i < length vocab" "vocab ! i = w" "tokenize vocab w = int i"
    using tokenize_in_vocab by blast
  then show "0 \<le> tokenize vocab w" "tokenize vocab w < int (length vocab)"
    "vocab ! nat (tokenize vocab w) = w" "detokenize vocab (tokenize vocab w) = Inr w"
    by (simp_all add: detokenize_def py_index_def)
next
  assume "w \<notin> set vocab"
  then show "tokenize vocab w = 1" by (rule tokenize_not_in_vocab)
qed

theorem detokenize_tokenize_roundtrip_witness:
  "''movie'' \<in> set ['''', ''[UNK]'', ''the'', ''movie'', ''the'']
   \<and> detokenize ['''', ''[UNK]'', ''the'', ''movie'', ''the'']
        (tokenize ['''', ''[UNK]'', ''the'', ''movie'', ''the''] ''movie'') = Inr ''movie''
   \<and> ''film'' \<notin> set ['''', ''[UNK]'', ''the'', ''movie'', ''the'']
   \<and> tokenize ['''', ''[UNK]'', ''the'', ''movie'', ''the''] ''film'' = 1"
  using detokenize_tokenize_roundtrip [of "''movie''" "['''', ''[UNK]'', ''the'', ''movie'', ''the'']"]
    detokenize_tokenize_roundtrip [of "''film''" "['''', ''[UNK]'', ''the'', ''movie'', ''the'']"]
  by simp

subsection \<open>Corpus preparation\<close>

lemma length_output_sequence: "length (output_sequence n toks) = n"
  by (simp add: output_sequence_def)

text \<open>
  Claim C7. Every text sample \<open>text ! b\<close> of a batch is tokenized to exactly
  \<open>maxlen + 1\<close> integers, the sample's tokens cut or filled with zeros; the input row
  \<open>x ! b\<close> is the first \<open>maxlen\<close> of them and the label row \<open>y ! b\<close> the last
  \<open>maxlen\<close>, so both have length \<open>maxlen\<close>, \<open>y ! b ! i\<close> is token \<open>i + 1\<close>, and it is
  \<open>x ! b ! (i + 1)\<close> wherever that entry exists.
\<close>

theorem prepare_lm_inputs_labels_shift:
  assumes "prepare_lm_inputs_labels maxlen tokens_of text = (x, y)"
    and "b < length text"
    and "tokens = vectorize_layer maxlen tokens_of text ! b"
  shows "length tokens = maxlen + 1
       \<and> tokens = take (maxlen + 1) (tokens_of (text ! b))
                    @ replicate (maxlen + 1 - length (tokens_of (text ! b))) 0
       \<and> x ! b = take maxlen tokens \<and> y ! b = drop 1 tokens
       \<and> length (x ! b) = maxlen \<and> length (y ! b) = maxlen
       \<and> (\<forall>i < maxlen. y ! b ! i = tokens ! (i + 1))
       \<and> (\<forall>i. i + 1 < maxlen \<longrightarrow> y ! b ! i = x ! b ! (i + 1))"
proof -
  have len: "length tokens = maxlen + 1"
    using assms(2,3) by (simp add: vectorize_layer_def length_output_sequence)
  have tok: "tokens = take (maxlen + 1) (tokens_of (text ! b))
                    @ replicate (maxlen + 1 - length (tokens_of (text ! b))) 0"
    using assms(2,3) by (simp add: vectorize_layer_def output_sequence_def)
  have x: "x ! b = butlast tokens" and y: "y ! b = drop 1 tokens"
    using assms by (auto simp: prepare_lm_inputs_labels_def Let_def vectorize_layer_def)
  have xt: "x ! b = take maxlen tokens"
    using x len by (simp add: butlast_conv_take)
  have lx: "length (x ! b) = maxlen" using xt len by simp
  have ly: "length (y ! b) = maxlen" using y len by simp
  have yi: "\<forall>i < maxlen. y ! b ! i = tokens ! (i + 1)"
    using y len by simp
  have yx: "\<forall>i. i + 1 < maxlen \<longrightarrow> y ! b ! i = x ! b ! (i + 1)"
    using y xt len by simp
  from len tok xt y lx ly yi yx show ?thesis by blast
qed

theorem prepare_lm_inputs_labels_shift_witness:
  "prepare_lm_inputs_labels 3 (\<lambda>s. map (\<lambda>c. int (length s)) s) [''ab'', ''hello'']
     = ([[2, 2, 0], [5, 5, 5]], [[2, 0, 0], [5, 5, 5]])
   \<and> (1::nat) < length [''ab'', ''hello'']
   \<and> [[2, 2, 0], [5, 5, 5]] ! 1 = take 3 [5, 5, 5, 5 :: int]
   \<and> length ([[2, 0, 0], [5, 5, 5 :: int]] ! 1) = 3"
proof -
  have run: "prepare_lm_inputs_labels 3 (\<lambda>s. map (\<lambda>c. int (length s)) s) [''ab'', ''hello'']
     = ([[2, 2, 0], [5, 5, 5]], [[2, 0, 0], [5, 5, 5]])"
    by (simp add: prepare_lm_inputs_labels_def vectorize_layer_def output_sequence_def
        numeral_eq_Suc)
  have b: "(1::nat) < length [''ab'', ''hello'']" by simp
  have t: "[5, 5, 5, 5 :: int]
      = vectorize_layer 3 (\<lambda>s. map (\<lambda>c. int (length s)) s) [''ab'', ''hello''] ! 1"
    by (simp add: vectorize_layer_def output_sequence_def numeral_eq_Suc)
  from prepare_lm_inputs_labels_shift [OF run b t] run b show ?thesis by simp
qed

subsection \<open>Multi-head self-attention: construction\<close>

text \<open>
  Claim C4, as the constructor has it. For a head count other than zero, and a dense
  constructor that accepts positive and rejects negative units: an embedding dimension
  that the head count does not divide makes the constructor raise the ValueError whose
  message names both numbers; a positive one that it divides makes the constructor
  succeed with \<open>projection_dim = embed_dim div num_heads\<close>, which times the head count
  is the embedding dimension again; a negative one that it divides passes the check and
  makes \<^verbatim>\<open>layers.Dense(embed_dim)\<close> raise its ValueError.
\<close>

theorem MultiHeadSelfAttention_init_nonzero_heads:
  assumes "num_heads' \<noteq> 0" and "dense_check units_ok"
  shows "(\<not> num_heads' dvd embed_dim' \<longrightarrow>
            MultiHeadSelfAttention_init units_ok embed_dim' num_heads'
              = Inl (ValueError (divisibility_message embed_dim' num_heads')))
       \<and> (num_heads' dvd embed_dim' \<and> 0 < embed_dim' \<longrightarrow>
            (\<exists>self. MultiHeadSelfAttention_init units_ok embed_dim' num_heads' = Inr self
               \<and> embed_dim self = embed_dim' \<and> num_heads self = num_heads'
               \<and> projection_dim self = embed_dim' div num_heads'
               \<and> projection_dim self * num_heads self = embed_dim self))
       \<and> (num_heads' dvd embed_dim' \<and> embed_dim' < 0 \<longrightarrow>
            MultiHeadSelfAttention_init units_ok embed_dim' num_heads'
              = Inl (ValueError (dense_units_message embed_dim')))"
  using assms
  by (auto simp: MultiHeadSelfAttention_init_def layers_Dense_def dense_check_def
      dvd_eq_mod_eq_0)

theorem MultiHeadSelfAttention_init_nonzero_heads_witness:
  "(2::int) \<noteq> 0 \<and> dense_check (\<lambda>units'. 0 \<le> units')
   \<and> \<not> (2::int) dvd 7 \<and> (2::int) dvd 256 \<and> (0::int) < 256
   \<and> (2::int) dvd - 6 \<and> (- 6 :: int) < 0
   \<and> MultiHeadSelfAttention_init (\<lambda>units'. 0 \<le> units') 7 2
       = Inl (ValueError ''embedding dimension = 7 should be divisible by number of heads = 2'')
   \<and> (\<exists>self. MultiHeadSelfAttention_init (\<lambda>units'. 0 \<le> units') 256 2 = Inr self
         \<and> projection_dim self = 128)
   \<and> MultiHeadSelfAttention_init (\<lambda>units'. 0 \<le> units') (- 6) 2
       = Inl (ValueError
           ''Received an invalid value for `units`, expected a positive integer. Received: units=-6'')"
  using MultiHeadSelfAttention_init_nonzero_heads [of 2 "\<lambda>units'. 0 \<le> units'" 7]
    MultiHeadSelfAttention_init_nonzero_heads [of 2 "\<lambda>units'. 0 \<le> units'" 256]
    MultiHeadSelfAttention_init_nonzero_heads [of 2 "\<lambda>units'. 0 \<le> units'" "- 6"]
  by (auto simp: dense_check_def divisibility_message_def dense_units_message_def str_int_def
      digits.simps)

text \<open>
  The claim for every head count and embedding dimension fails in two places. At zero
  heads the remainder \<^verbatim>\<open>embed_dim % num_heads\<close> raises ZeroDivisionError before the
  check is reached, for the embedding dimension 5, which zero does not divide, and for
  the embedding dimension 0, which it does. At the embedding dimension \<open>-6\<close> and 3
  heads the division is exact, and the construction still fails, in
  \<^verbatim>\<open>layers.Dense(-6)\<close>. Both hold whether the dense constructor accepts zero units
  or not.
\<close>

theorem MultiHeadSelfAttention_init_zero_heads_counterexample:
  "\<not> (0::int) dvd 5
   \<and> MultiHeadSelfAttention_init (\<lambda>units'. 0 \<le> units') 5 0 = Inl ZeroDivisionError
   \<and> MultiHeadSelfAttention_init (\<lambda>units'. 0 \<le> units') 5 0
       \<noteq> Inl (ValueError (divisibility_message 5 0))
   \<and> (0::int) dvd 0
   \<and> MultiHeadSelfAttention_init (\<lambda>units'. 0 \<le> units') 0 0 = Inl ZeroDivisionError
   \<and> MultiHeadSelfAttention_init (\<lambda>units'. 0 < units') 0 0 = Inl ZeroDivisionError
   \<and> (3::int) dvd - 6
   \<and> MultiHeadSelfAttention_init (\<lambda>units'. 0 \<le> units') (- 6) 3
       = Inl (ValueError (dense_units_message (- 6)))
   \<and> MultiHeadSelfAttention_init (\<lambda>units'. 0 < units') (- 6) 3
       = Inl (ValueError (dense_units_message (- 6)))"
  by (simp add: MultiHeadSelfAttention_init_def layers_Dense_def)

subsection \<open>Token and position embedding\<close>

text \<open>
  Claim C6. For a batch \<open>x\<close> of rows of \<open>S\<close> token indices each, the output at row \<open>b\<close>,
  position \<open>p\<close> is the token embedding of \<open>x ! b ! p\<close> plus the position embedding of
  \<open>p\<close>. Hence two inputs that hold the same token at position \<open>p\<close> have the same output
  at position \<open>p\<close>, whatever the other positions hold.
\<close>

theorem TokenAndPositionEmbedding_call_pointwise:
  "(\<forall>row \<in> set x. length row = S) \<and> b < length x \<and> p < S \<longrightarrow>
     TokenAndPositionEmbedding_call self x ! b ! p
       = vadd (token_emb self (x ! b ! p)) (pos_emb self (int p))
     \<and> (\<forall>x' S' b'. (\<forall>row \<in> set x'. length row = S') \<and> b' < length x' \<and> p < S'
           \<and> x' ! b' ! p = x ! b ! p \<longrightarrow>
         TokenAndPositionEmbedding_call self x' ! b' ! p
           = TokenAndPositionEmbedding_call self x ! b ! p)"
proof -
  have point: "TokenAndPositionEmbedding_call self z ! c ! p
       = vadd (token_emb self (z ! c ! p)) (pos_emb self (int p))"
    if "\<forall>row \<in> set z. length row = T" "c < length z" "p < T" for z :: "int list list" and T c
  proof -
    from that obtain r rs where z: "z = r # rs" by (cases z) auto
    with that have "last_dim2 z = T" by (simp add: last_dim2_def)
    moreover have "length (z ! c) = T" using that by simp
    ultimately show ?thesis
      using that by (simp add: TokenAndPositionEmbedding_call_def Let_def length_tf_range
          nth_tf_range)
  qed
  show ?thesis using point by (metis (no_types, lifting))
qed

theorem TokenAndPositionEmbedding_call_pointwise_witness:
  "map length [[4, 7], [9, 7 :: int]] = [2, 2] \<and> (0::nat) < length [[4, 7], [9, 7 :: int]]
   \<and> TokenAndPositionEmbedding_call
        \<lparr> token_emb = (\<lambda>t. [real_of_int t, 1]), pos_emb = (\<lambda>q. [0, real_of_int q]) \<rparr>
        [[4, 7], [9, 7]] ! 0 ! 1 = [7, 2]
   \<and> TokenAndPositionEmbedding_call
        \<lparr> token_emb = (\<lambda>t. [real_of_int t, 1]), pos_emb = (\<lambda>q. [0, real_of_int q]) \<rparr>
        [[4, 7], [9, 7]] ! 1 ! 1 = [7, 2]"
proof -
  have h: "(\<forall>row \<in> set [[4, 7], [9, 7 :: int]]. length row = 2) \<and> (0::nat) < length [[4, 7], [9, 7 :: int]]
      \<and> (1::nat) < 2"
    by simp
  have h': "(\<forall>row \<in> set [[4, 7], [9, 7 :: int]]. length row = 2) \<and> (1::nat) < length [[4, 7], [9, 7 :: int]]
      \<and> (1::nat) < 2"
    by simp
  from TokenAndPositionEmbedding_call_pointwise
    [of "[[4, 7], [9, 7]]" 2 0 1
      "\<lparr> token_emb = (\<lambda>t. [real_of_int t, 1]), pos_emb = (\<lambda>q. [0, real_of_int q]) \<rparr>"]
    TokenAndPositionEmbedding_call_pointwise
    [of "[[4, 7], [9, 7]]" 2 1 1
      "\<lparr> token_emb = (\<lambda>t. [real_of_int t, 1]), pos_emb = (\<lambda>q. [0, real_of_int q]) \<rparr>"]
    h h'
  show ?thesis by (simp add: vadd_def)
qed

subsection \<open>The generation loop\<close>

lemma model_input_fst:
  "fst (model_input maxlen toks) = take maxlen toks @ replicate (maxlen - length toks) 0"
  by (auto simp: model_input_def Let_def)

lemma model_input_snd:
  "snd (model_input maxlen toks)
     = (if maxlen < length toks then int maxlen - 1 else int (length toks) - 1)"
  by (auto simp: model_input_def Let_def)

lemma model_input_length: "length (fst (model_input maxlen toks)) = maxlen"
  by (simp add: model_input_fst)

lemma generate_loop_appends:
  "generate_loop self maxlen predict rand (st, tg, num, fed) = Inr (st', tg', fed') \<Longrightarrow>
   \<exists>new. st' = st @ new \<and> tg' = tg @ new
     \<and> fed' = fed @ map (\<lambda>n. model_input maxlen (st @ take n new)) [0..<length new]"
proof (induction self maxlen predict rand "(st, tg, num, fed)" arbitrary: st tg num fed
    rule: generate_loop.induct)
  case (1 self maxlen predict rand st tg num fed)
  show ?case
  proof (cases "num \<le> max_tokens self")
    case False
    with "1.prems" have "st' = st" "tg' = tg" "fed' = fed"
      by (simp_all add: generate_loop.simps)
    then show ?thesis by (intro exI [of _ "[]"]) simp
  next
    case True
    from "1.prems" True obtain logits where
      logits: "py_index (predict (fst (model_input maxlen st))) (snd (model_input maxlen st))
                 = Inr logits"
      by (simp add: generate_loop.simps split: sum.splits)
    from "1.prems" True logits obtain tok where
      tok: "sample_from (top_k self) logits (rand (length fed)) = Inr tok"
      by (simp add: generate_loop.simps split: sum.splits)
    from "1.prems" True logits tok have rec:
      "generate_loop self maxlen predict rand
         (st @ [tok], tg @ [tok], int (length (tg @ [tok])), fed @ [model_input maxlen st])
       = Inr (st', tg', fed')"
      by (simp add: generate_loop.simps)
    from "1.hyps" [OF True logits tok rec] obtain new where new:
      "st' = (st @ [tok]) @ new" "tg' = (tg @ [tok]) @ new"
      "fed' = (fed @ [model_input maxlen st])
               @ map (\<lambda>n. model_input maxlen ((st @ [tok]) @ take n new)) [0..<length new]"
      by blast
    have "map (\<lambda>n. model_input maxlen (st @ take n (tok # new))) [0..<length (tok # new)]
        = model_input maxlen st
          # map (\<lambda>n. model_input maxlen ((st @ [tok]) @ take n new)) [0..<length new]"
    proof -
      have "[0..<length (tok # new)] = 0 # map Suc [0..<length new]"
        by (simp add: upt_conv_Cons map_Suc_upt del: upt_Suc)
      then show ?thesis by (simp add: o_def)
    qed
    with new show ?thesis by (intro exI [of _ "tok # new"]) simp
  qed
qed

lemma generate_loop_count:
  "generate_loop self maxlen predict rand (st, tg, num, fed) = Inr (st', tg', fed') \<Longrightarrow>
   num = int (length tg) \<Longrightarrow>
   length tg' = max (length tg) (nat (max_tokens self + 1))"
proof (induction self maxlen predict rand "(st, tg, num, fed)" arbitrary: st tg num fed
    rule: generate_loop.induct)
  case (1 self maxlen predict rand st tg num fed)
  show ?case
  proof (cases "num \<le> max_tokens self")
    case False
    with "1.prems" show ?thesis by (simp add: generate_loop.simps)
  next
    case True
    from "1.prems" True obtain logits where
      logits: "py_index (predict (fst (model_input maxlen st))) (snd (model_input maxlen st))
                 = Inr logits"
      by (simp add: generate_loop.simps split: sum.splits)
    from "1.prems" True logits obtain tok where
      tok: "sample_from (top_k self) logits (rand (length fed)) = Inr tok"
      by (simp add: generate_loop.simps split: sum.splits)
    from "1.prems" True logits tok have rec:
      "generate_loop self maxlen predict rand
         (st @ [tok], tg @ [tok], int (length (tg @ [tok])), fed @ [model_input maxlen st])
       = Inr (st', tg', fed')"
      by (simp add: generate_loop.simps)
    from "1.hyps" [OF True logits tok rec refl]
    have "length tg' = max (length (tg @ [tok])) (nat (max_tokens self + 1))" .
    with True "1.prems"(2) show ?thesis by simp
  qed
qed

lemma length_detokenize_all:
  "detokenize_all v ts = Inr ws \<Longrightarrow> length ws = length ts"
  by (induction ts arbitrary: ws) (auto split: sum.splits)

text \<open>
  Claim C1 says the loop produces exactly \<open>max_tokens\<close> tokens; the docstring of the
  callback says the same of \<open>max_tokens\<close>. The loop tests
  \<^verbatim>\<open>num_tokens_generated <= self.max_tokens\<close>, so a run that prints has produced
  \<open>max_tokens + 1\<close> tokens (none for a negative \<open>max_tokens\<close> below \<open>-1\<close>), and the
  printed text joins that many words more than the prompt has: for a prompt of 3
  tokens and \<open>max_tokens = 5\<close>, 6 tokens and 9 words.
\<close>

theorem on_epoch_end_generates_one_more:
  assumes "on_epoch_end self maxlen predict rand epoch = Inr (Some (tokens_generated, txt))"
  shows "length tokens_generated = nat (max_tokens self + 1)
       \<and> (\<exists>words. txt = py_join '' '' words
             \<and> length words = length (start_tokens self) + nat (max_tokens self + 1))"
proof -
  from assms obtain st fed where
    loop: "generate_loop self maxlen predict rand (start_tokens self, [], 0, [])
             = Inr (st, tokens_generated, fed)"
    by (auto simp: on_epoch_end_def Let_def split: if_splits sum.splits)
  from assms loop obtain words where
    words: "detokenize_all (index_to_word self) (start_tokens self @ tokens_generated) = Inr words"
      "txt = py_join '' '' words"
    by (auto simp: on_epoch_end_def Let_def split: if_splits sum.splits)
  from generate_loop_count [OF loop] have n: "length tokens_generated = nat (max_tokens self + 1)"
    by simp
  from length_detokenize_all [OF words(1)] n
  have "length words = length (start_tokens self) + nat (max_tokens self + 1)" by simp
  with n words(2) show ?thesis by blast
qed

theorem on_epoch_end_generates_one_more_witness:
  "on_epoch_end example_generator 100 example_model (\<lambda>n. 0) 0
     = Inr (Some ([5, 0, 1, 2, 3, 4], ''this movie is good  [UNK] this movie is''))
   \<and> max_tokens example_generator = 5
   \<and> length (start_tokens example_generator) = 3
   \<and> length [5, 0, 1, 2, 3, 4 :: int] = 6"
proof -
  have run: "on_epoch_end example_generator 100 example_model (\<lambda>n. 0) 0
     = Inr (Some ([5, 0, 1, 2, 3, 4], ''this movie is good  [UNK] this movie is''))"
    by (simp add: on_epoch_end_def generate_loop.simps example_generator_def example_model_def
        model_input_def py_index_def nth_append sample_from_def tf_math_top_k_def softmax_def
        np_random_choice_def cumsum_def searchsorted_right_def choice_atol_def upt_rec
        detokenize_def)
  from on_epoch_end_generates_one_more [OF run] run show ?thesis
    by (simp add: example_generator_def)
qed

text \<open>
  Claim C10. In a run of the loop from the prompt \<open>st0\<close>, the \<open>n\<close>-th array given to
  the model is built from the prompt and the first \<open>n\<close> generated tokens: it has length
  exactly \<open>maxlen\<close>, it is that list cut to its first \<open>maxlen\<close> entries and filled with
  zeros on the right; once the list has \<open>maxlen\<close> entries or more the array is the first
  \<open>maxlen\<close> entries of the final list and the position sampled is \<open>maxlen - 1\<close>; and
  every entry of the array is an entry of the accumulated list at a position below
  \<open>maxlen\<close>, or a zero of the padding. The array that an iteration builds has length
  \<open>maxlen\<close> from any list of tokens, also in a run that raises later.
\<close>

theorem generate_loop_model_inputs:
  assumes "generate_loop self maxlen predict rand (st0, [], 0, []) = Inr (st, tg, fed)"
    and "n < length fed"
  shows "length fed = length tg \<and> st = st0 @ tg
       \<and> fed ! n = model_input maxlen (st0 @ take n tg)
       \<and> length (fst (fed ! n)) = maxlen
       \<and> fst (fed ! n)
           = take maxlen (st0 @ take n tg) @ replicate (maxlen - (length st0 + n)) 0
       \<and> (maxlen \<le> length st0 + n \<longrightarrow>
             fst (fed ! n) = take maxlen (st0 @ tg) \<and> snd (fed ! n) = int maxlen - 1)
       \<and> (length st0 + n \<le> maxlen \<longrightarrow> snd (fed ! n) = int (length st0 + n) - 1)
       \<and> (\<forall>j < maxlen. fst (fed ! n) ! j
             = (if j < length st0 + n then (st0 @ tg) ! j else 0))
       \<and> (\<forall>toks. length (fst (model_input maxlen toks)) = maxlen)"
proof -
  from generate_loop_appends [OF assms(1)]
  have st: "st = st0 @ tg"
    and fed: "fed = map (\<lambda>n. model_input maxlen (st0 @ take n tg)) [0..<length tg]"
    by auto
  have len: "length fed = length tg" using fed by simp
  with assms(2) have n: "n < length tg" by simp
  have nth: "fed ! n = model_input maxlen (st0 @ take n tg)"
    using fed n by simp
  have ltn: "length (st0 @ take n tg) = length st0 + n" using n by simp
  have l: "length (fst (fed ! n)) = maxlen"
    using nth by (simp add: model_input_length)
  have f: "fst (fed ! n)
      = take maxlen (st0 @ take n tg) @ replicate (maxlen - (length st0 + n)) 0"
    unfolding nth model_input_fst ltn ..
  have pre: "take maxlen (st0 @ take n tg) = take maxlen (st0 @ tg)"
    if "maxlen \<le> length st0 + n"
    using that n by (auto simp: min_def)
  have t: "maxlen \<le> length st0 + n \<longrightarrow>
      fst (fed ! n) = take maxlen (st0 @ tg) \<and> snd (fed ! n) = int maxlen - 1"
  proof
    assume h: "maxlen \<le> length st0 + n"
    then have "fst (fed ! n) = take maxlen (st0 @ tg)" using f pre by simp
    moreover have "snd (fed ! n) = int maxlen - 1"
      unfolding nth model_input_snd ltn using h by auto
    ultimately show "fst (fed ! n) = take maxlen (st0 @ tg) \<and> snd (fed ! n) = int maxlen - 1" ..
  qed
  have s: "length st0 + n \<le> maxlen \<longrightarrow> snd (fed ! n) = int (length st0 + n) - 1"
    unfolding nth model_input_snd ltn by auto
  have e: "\<forall>j < maxlen. fst (fed ! n) ! j = (if j < length st0 + n then (st0 @ tg) ! j else 0)"
  proof (intro allI impI)
    fix j assume j: "j < maxlen"
    show "fst (fed ! n) ! j = (if j < length st0 + n then (st0 @ tg) ! j else 0)"
    proof (cases "j < length st0 + n")
      case True
      then have jl: "j < length (take maxlen (st0 @ take n tg))"
        using j n by simp
      have "fst (fed ! n) ! j = take maxlen (st0 @ take n tg) ! j"
        unfolding f using jl by (simp only: nth_append if_True)
      also have "\<dots> = (st0 @ take n tg) ! j" using j by (rule nth_take)
      also have "\<dots> = (st0 @ tg) ! j"
      proof (cases "j < length st0")
        case True
        then show ?thesis by (simp add: nth_append)
      next
        case False
        with \<open>j < length st0 + n\<close> have "j - length st0 < n" by simp
        then show ?thesis using False by (simp add: nth_append)
      qed
      finally show ?thesis using True by simp
    next
      case False
      have lt: "length (take maxlen (st0 @ take n tg)) = length st0 + n"
        using False j n by simp
      have "fst (fed ! n) ! j
          = replicate (maxlen - (length st0 + n)) (0::int) ! (j - (length st0 + n))"
        unfolding f using False by (simp only: nth_append lt if_False)
      also have "\<dots> = 0" using False j by simp
      finally show ?thesis using False by simp
    qed
  qed
  have a: "\<forall>toks. length (fst (model_input maxlen toks)) = maxlen"
    by (simp add: model_input_length)
  from len st nth l f t s e a show ?thesis by blast
qed

theorem generate_loop_model_inputs_witness:
  "generate_loop (example_generator \<lparr> max_tokens := 2 \<rparr>) 4 example_model (\<lambda>n. 0)
       ([2, 3, 4], [], 0, [])
     = Inr ([2, 3, 4, 5, 0, 0], [5, 0, 0],
            [([2, 3, 4, 0], 2), ([2, 3, 4, 5], 3), ([2, 3, 4, 5], 3)])
   \<and> (2::nat) < length [([2, 3, 4, 0], 2), ([2, 3, 4, 5], 3), ([2, 3, 4, 5 :: int], 3 :: int)]
   \<and> [([2, 3, 4, 0], 2), ([2, 3, 4, 5], 3), ([2, 3, 4, 5 :: int], 3 :: int)] ! 2
       = model_input 4 [2, 3, 4, 5, 0]
   \<and> fst ([([2, 3, 4, 0], 2), ([2, 3, 4, 5], 3), ([2, 3, 4, 5 :: int], 3 :: int)] ! 2)
       = take 4 [2, 3, 4, 5, 0, 0]"
proof -
  have run: "generate_loop (example_generator \<lparr> max_tokens := 2 \<rparr>) 4 example_model (\<lambda>n. 0)
       ([2, 3, 4], [], 0, [])
     = Inr ([2, 3, 4, 5, 0, 0], [5, 0, 0],
            [([2, 3, 4, 0], 2), ([2, 3, 4, 5], 3), ([2, 3, 4, 5], 3)])"
    by (simp add: generate_loop.simps example_generator_def example_model_def
        model_input_def py_index_def nth_append sample_from_def tf_math_top_k_def softmax_def
        np_random_choice_def cumsum_def searchsorted_right_def choice_atol_def upt_rec)
  have n: "(2::nat) < length [([2, 3, 4, 0], 2), ([2, 3, 4, 5], 3), ([2, 3, 4, 5 :: int], 3 :: int)]"
    by simp
  from generate_loop_model_inputs [OF run n] run show ?thesis
    by (simp add: model_input_def)
qed

subsection \<open>Sampling from the top-k logits\<close>

lemma length_cumsum_from: "length (cumsum_from a xs) = length xs"
  by (induction xs arbitrary: a) auto

lemma cumsum_from_nth:
  "i < length xs \<Longrightarrow> cumsum_from a xs ! i = a + sum_list (take (Suc i) xs)"
proof (induction xs arbitrary: a i)
  case Nil
  then show ?case by simp
next
  case (Cons x xs)
  then show ?case by (cases i) (auto simp: add.assoc)
qed

lemma cumsum_nth: "i < length xs \<Longrightarrow> cumsum xs ! i = sum_list (take (Suc i) xs)"
  by (simp add: cumsum_def cumsum_from_nth)

lemma last_cumsum: "xs \<noteq> [] \<Longrightarrow> last (cumsum xs) = sum_list xs"
proof -
  assume ne: "xs \<noteq> []"
  then have "cumsum xs \<noteq> []"
    using length_cumsum_from [of 0 xs] by (auto simp: cumsum_def)
  then have "last (cumsum xs) = cumsum xs ! (length xs - 1)"
    by (simp add: last_conv_nth cumsum_def length_cumsum_from)
  also have "\<dots> = sum_list (take (Suc (length xs - 1)) xs)"
    using ne by (intro cumsum_nth) simp
  also have "\<dots> = sum_list xs" using ne by simp
  finally show ?thesis .
qed

lemma sum_list_exp_pos: "xs \<noteq> [] \<Longrightarrow> 0 < sum_list (map exp (xs :: real list))"
proof (induction xs)
  case Nil
  then show ?case by simp
next
  case (Cons x xs)
  have "0 \<le> sum_list (map exp xs)" by (rule sum_list_nonneg) auto
  then have "0 < exp x + sum_list (map exp xs)" by (intro add_pos_nonneg) simp_all
  then show ?case by simp
qed

lemma sum_list_softmax: "xs \<noteq> [] \<Longrightarrow> sum_list (softmax xs) = 1"
proof -
  assume ne: "xs \<noteq> []"
  have "sum_list (softmax xs) = sum_list (map exp xs) * inverse (sum_list (map exp xs))"
    unfolding softmax_def by (simp add: divide_inverse sum_list_mult_const [symmetric] o_def)
  also have "\<dots> = 1" using sum_list_exp_pos [OF ne] by simp
  finally show ?thesis .
qed


lemma softmax_nonneg: "x \<in> set (softmax xs) \<Longrightarrow> 0 \<le> x"
proof (cases "xs = []")
  case True
  assume "x \<in> set (softmax xs)"
  with True show ?thesis by (simp add: softmax_def)
next
  case False
  assume "x \<in> set (softmax xs)"
  then obtain y where "x = exp y / sum_list (map exp xs)" by (auto simp: softmax_def)
  with sum_list_exp_pos [OF False] show ?thesis by simp
qed

lemma sum_list_take_mono:
  assumes "\<forall>x \<in> set p. (0::real) \<le> x" and "i \<le> j"
  shows "sum_list (take i p) \<le> sum_list (take j p)"
proof -
  have "take j p = take i p @ take (j - i) (drop i p)"
    using assms(2) by (metis le_add_diff_inverse take_add)
  moreover have "0 \<le> sum_list (take (j - i) (drop i p))"
  proof (rule sum_list_nonneg)
    fix x assume "x \<in> set (take (j - i) (drop i p))"
    then have "x \<in> set p" by (meson in_set_dropD in_set_takeD)
    with assms(1) show "0 \<le> x" by blast
  qed
  ultimately show ?thesis by simp
qed

text \<open>
  Where the search lands: with non-negative weights \<open>p\<close> and \<open>u\<close> below their total,
  the position found is the one whose interval of running sums holds \<open>u\<close>.
\<close>

lemma searchsorted_right_cumsum:
  assumes nonneg: "\<forall>x \<in> set p. (0::real) \<le> x"
    and u0: "0 \<le> u" and u1: "u < sum_list p"
  shows "searchsorted_right (cumsum p) u < length p"
    and "i < length p \<Longrightarrow>
         searchsorted_right (cumsum p) u = i
           \<longleftrightarrow> sum_list (take i p) \<le> u \<and> u < sum_list (take (Suc i) p)"
proof -
  let ?cdf = "cumsum p"
  let ?idx = "searchsorted_right ?cdf u"
  have len: "length ?cdf = length p" by (simp add: cumsum_def length_cumsum_from)
  have ne: "p \<noteq> []" using u0 u1 by auto
  have idx_le: "?idx \<le> length p"
    unfolding searchsorted_right_def using length_takeWhile_le [of _ ?cdf] len by simp
  have below: "?cdf ! j \<le> u" if "j < ?idx" for j
  proof -
    from that have j: "j < length (takeWhile (\<lambda>c. c \<le> u) ?cdf)"
      by (simp add: searchsorted_right_def)
    then have "takeWhile (\<lambda>c. c \<le> u) ?cdf ! j \<in> set (takeWhile (\<lambda>c. c \<le> u) ?cdf)"
      by (rule nth_mem)
    then have "takeWhile (\<lambda>c. c \<le> u) ?cdf ! j \<le> u" by (rule set_takeWhileD [THEN conjunct2])
    then show ?thesis using j by (simp add: takeWhile_nth)
  qed
  show idx_lt: "?idx < length p"
  proof (rule ccontr)
    assume "\<not> ?idx < length p"
    with idx_le have "?idx = length p" by simp
    with ne have "length p - 1 < ?idx" by (cases p) auto
    from below [OF this] have "?cdf ! (length p - 1) \<le> u" .
    moreover have "?cdf ! (length p - 1) = sum_list (take (Suc (length p - 1)) p)"
      using ne by (intro cumsum_nth) simp
    ultimately show False using u1 ne by simp
  qed
  have above: "u < ?cdf ! ?idx"
  proof -
    have "?idx < length ?cdf" using idx_lt len by simp
    then have "\<not> (?cdf ! ?idx \<le> u)"
      unfolding searchsorted_right_def by (rule nth_length_takeWhile)
    then show ?thesis by simp
  qed
  have lo: "sum_list (take ?idx p) \<le> u"
  proof (cases ?idx)
    case 0
    then show ?thesis using u0 by simp
  next
    case (Suc m)
    then have "m < ?idx" by simp
    from below [OF this] have "?cdf ! m \<le> u" .
    moreover have "m < length p" using Suc idx_lt by simp
    ultimately show ?thesis using Suc by (simp add: cumsum_nth)
  qed
  have hi: "u < sum_list (take (Suc ?idx) p)"
    using above idx_lt by (simp add: cumsum_nth)
  show "?idx = i \<longleftrightarrow> sum_list (take i p) \<le> u \<and> u < sum_list (take (Suc i) p)"
    if i: "i < length p"
  proof
    assume "?idx = i"
    with lo hi show "sum_list (take i p) \<le> u \<and> u < sum_list (take (Suc i) p)" by simp
  next
    assume h: "sum_list (take i p) \<le> u \<and> u < sum_list (take (Suc i) p)"
    show "?idx = i"
    proof (rule ccontr)
      assume "?idx \<noteq> i"
      then consider "?idx < i" | "i < ?idx" by linarith
      then show False
      proof cases
        case 1
        then have "Suc ?idx \<le> i" by simp
        from sum_list_take_mono [OF nonneg this] hi h show False by simp
      next
        case 2
        then have "Suc i \<le> ?idx" by simp
        from sum_list_take_mono [OF nonneg this] lo h show False by simp
      qed
    qed
  qed
qed
lemma top_k_indices_props:
  fixes logits :: "real list"
  assumes "indices = take k (sort_key (\<lambda>i. - (logits ! i)) [0..<length logits])"
    and "k \<le> length logits"
  shows "length indices = k" and "distinct indices" and "set indices \<subseteq> {..<length logits}"
    and "\<forall>a \<in> set indices. \<forall>b < length logits. b \<notin> set indices \<longrightarrow> logits ! b \<le> logits ! a"
proof -
  let ?f = "\<lambda>i. - (logits ! i)"
  let ?s = "sort_key ?f [0..<length logits]"
  have ls: "length ?s = length logits" by simp
  show "length indices = k" using assms ls by simp
  have ds: "distinct ?s" by simp
  then show "distinct indices" unfolding assms(1) by (rule distinct_take)
  have ss: "set ?s = {..<length logits}" by auto
  show "set indices \<subseteq> {..<length logits}"
    unfolding assms(1) using ss set_take_subset [of k ?s] by blast
  have split: "?s = indices @ drop k ?s" unfolding assms(1) by simp
  have "sorted (map ?f ?s)" by (rule sorted_sort_key)
  then have "sorted (map ?f indices @ map ?f (drop k ?s))"
    using split by (metis map_append)
  then have ord: "\<forall>x \<in> set (map ?f indices). \<forall>y \<in> set (map ?f (drop k ?s)). x \<le> y"
    by (simp add: sorted_append)
  show "\<forall>a \<in> set indices. \<forall>b < length logits. b \<notin> set indices \<longrightarrow> logits ! b \<le> logits ! a"
  proof (intro ballI allI impI)
    fix a b assume a: "a \<in> set indices" and b: "b < length logits" "b \<notin> set indices"
    from b(1) ss have "b \<in> set ?s" by simp
    then have "b \<in> set indices \<union> set (drop k ?s)"
      using split by (metis set_append)
    with b(2) have "b \<in> set (drop k ?s)" by simp
    with a ord have "?f a \<le> ?f b" by simp
    then show "logits ! b \<le> logits ! a" by simp
  qed
qed


text \<open>What the sampling routine hands to the random choice, and what comes back.\<close>

lemma sample_from_unfold:
  assumes k: "0 < k'" "k' \<le> int (length logits)" and u: "0 \<le> u" "u < 1"
    and indices: "indices = take (nat k') (sort_key (\<lambda>i. - (logits ! i)) [0..<length logits])"
    and preds: "preds = softmax (map (\<lambda>i. logits ! i) indices)"
  shows "searchsorted_right (cumsum preds) u < nat k'"
    and "sample_from k' logits u = Inr (int (indices ! searchsorted_right (cumsum preds) u))"
    and "sum_list preds = 1" and "\<forall>x \<in> set preds. 0 \<le> x" and "length preds = nat k'"
proof -
  have kn: "nat k' \<le> length logits" using k by simp
  have lt: "length indices = nat k'" by (rule top_k_indices_props(1) [OF indices kn])
  then have ne: "map (\<lambda>i. logits ! i) indices \<noteq> []" using k by auto
  show s1: "sum_list preds = 1" unfolding preds by (rule sum_list_softmax [OF ne])
  show nn: "\<forall>x \<in> set preds. 0 \<le> x" unfolding preds using softmax_nonneg by blast
  show lp: "length preds = nat k'" unfolding preds using lt by (simp add: softmax_def)
  have pne: "preds \<noteq> []" using lp k by auto
  have u1: "u < sum_list preds" using s1 u by simp
  from searchsorted_right_cumsum(1) [OF nn u(1) u1] lp
  show idx: "searchsorted_right (cumsum preds) u < nat k'" by simp
  have tk: "tf_math_top_k logits k' = Inr (map (\<lambda>i. logits ! i) indices, indices)"
    using k indices by (simp add: tf_math_top_k_def Let_def)
  have atol: "\<not> \<bar>sum_list preds - 1\<bar> > choice_atol"
    using s1 by (simp add: choice_atol_def)
  have neg: "\<not> (\<exists>x \<in> set preds. x < 0)" using nn by (auto simp: not_less)
  have cdf: "map (\<lambda>c. c / last (cumsum preds)) (cumsum preds) = cumsum preds"
    using last_cumsum [OF pne] s1 by simp
  have "np_random_choice (map int indices) preds u
      = py_index (map int indices) (int (searchsorted_right (cumsum preds) u))"
  proof -
    have ine: "map int indices \<noteq> []" using lt k by auto
    have ll: "\<not> length preds \<noteq> length (map int indices)" using lt lp by simp
    show ?thesis
      unfolding np_random_choice_def Let_def cdf
      by (simp only: ine ll neg atol if_False)
  qed
  also have "\<dots> = Inr (int (indices ! searchsorted_right (cumsum preds) u))"
    using idx lt k(1) by (auto simp: py_index_def)
  finally show "sample_from k' logits u = Inr (int (indices ! searchsorted_right (cumsum preds) u))"
    using tk preds by (simp add: sample_from_def Let_def)
qed


subsection \<open>Scaled dot-product attention\<close>

lemma causal_attention_mask_length:
  "length (causal_attention_mask (int n_dest) (int n_src)) = n_dest"
  by (simp add: causal_attention_mask_def length_tf_range)

lemma causal_attention_mask_row_length:
  "i < n_dest \<Longrightarrow> length (causal_attention_mask (int n_dest) (int n_src) ! i) = n_src"
  by (simp add: causal_attention_mask_def length_tf_range nth_tf_range)

lemma causal_attention_mask_nth:
  "i < n_dest \<Longrightarrow> j < n_src \<Longrightarrow>
   causal_attention_mask (int n_dest) (int n_src) ! i ! j
     = (if int j - int n_src + int n_dest \<le> int i then 1 else 0)"
  by (simp add: causal_attention_mask_def length_tf_range nth_tf_range)

lemma slice0_nth: "t \<noteq> [] \<Longrightarrow> slice0 t = t ! 0"
  by (cases t) (simp_all add: slice0_def)

lemma shape2_nth: "shape2 t r c \<Longrightarrow> i < r \<Longrightarrow> length (t ! i) = c"
  by (simp add: shape2_def)

lemma shape3_nth: "shape3 t b r c \<Longrightarrow> i < b \<Longrightarrow> shape2 (t ! i) r c"
  by (simp add: shape3_def)

lemma shape4_nth: "shape4 t b h r c \<Longrightarrow> i < b \<Longrightarrow> shape3 (t ! i) h r c"
  by (simp add: shape4_def)

lemma shape2_length: "shape2 t r c \<Longrightarrow> length t = r"
  by (simp add: shape2_def)

lemma shape3_length: "shape3 t b r c \<Longrightarrow> length t = b"
  by (simp add: shape3_def)

lemma shape4_length: "shape4 t b h r c \<Longrightarrow> length t = b"
  by (simp add: shape4_def)

lemma shape2_I: "length t = r \<Longrightarrow> (\<And>i. i < r \<Longrightarrow> length (t ! i) = c) \<Longrightarrow> shape2 t r c"
  by (auto simp: shape2_def in_set_conv_nth)

lemma shape3_I: "length t = b \<Longrightarrow> (\<And>i. i < b \<Longrightarrow> shape2 (t ! i) r c) \<Longrightarrow> shape3 t b r c"
  by (auto simp: shape3_def in_set_conv_nth)

lemma shape4_I:
  "length t = b \<Longrightarrow> (\<And>i. i < b \<Longrightarrow> shape3 (t ! i) h r c) \<Longrightarrow> shape4 t b h r c"
  by (auto simp: shape4_def in_set_conv_nth)

lemma matmul_transpose_b_nth:
  "i < length a \<Longrightarrow> j < length b \<Longrightarrow>
   matmul_transpose_b rnd a b ! i ! j = dot rnd (a ! i) (b ! j)"
  by (simp add: matmul_transpose_b_def)

lemma shape2_matmul_transpose_b: "shape2 (matmul_transpose_b rnd a b) (length a) (length b)"
  by (simp add: matmul_transpose_b_def shape2_def)

text \<open>Float32 values: what an operation returns is a value a tensor can hold.\<close>

lemma f32_max_pos: "10000 \<le> f32_max"
  by (simp add: f32_max_def)

lemma f32_valid_f32_of: "rounding rnd \<Longrightarrow> f32_valid rnd (f32_of rnd r)"
  by (auto simp: f32_of_def rounding_def)

lemma f32_valid_f32_inf: "f32_valid rnd (f32_inf negative)"
  by (simp add: f32_inf_def)

lemma f32_valid_zero: "rounding rnd \<Longrightarrow> f32_valid rnd (Fin 0)"
  using f32_max_pos by (simp add: rounding_def)

lemma f32_valid_fdiv:
  assumes "rounding rnd"
  shows "f32_valid rnd (fdiv rnd a b)"
proof -
  have z: "rnd 0 = 0 \<and> 0 \<le> f32_max"
    using assms f32_max_pos by (simp add: rounding_def)
  show ?thesis
    by (cases a; cases b) (simp_all add: f32_valid_f32_of [OF assms] f32_valid_f32_inf z)
qed

text \<open>
  The line that applies the mask, at one entry: where the mask is one the score is
  kept, whatever it is; where the mask is zero a finite score becomes \<open>-10000\<close>, and an
  infinite one or NaN becomes NaN, since it is multiplied by zero first.
\<close>

lemma mask_one_keeps:
  assumes "rounding rnd" and "f32_valid rnd s"
  shows "fsub rnd (fmul rnd s 1) (fmul rnd (Fin 10000) (fsub rnd (Fin 1) 1)) = s"
proof -
  have r: "rnd 0 = 0" "rnd 1 = 1" using assms(1) by (simp_all add: rounding_def)
  have z: "f32_of rnd 0 = Fin 0"
    using r f32_max_pos by (simp add: f32_of_def)
  have inner: "fmul rnd (Fin 10000) (fsub rnd (Fin 1) 1) = Fin 0"
    by (simp add: one_f32_def fsub_def z)
  show ?thesis
    unfolding inner
  proof (cases s)
    case (Fin x)
    with assms(2) have x: "rnd x = x" "\<bar>x\<bar> \<le> f32_max" by simp_all
    then have "f32_of rnd x = Fin x" by (auto simp: f32_of_def)
    then show "fsub rnd (fmul rnd s 1) (Fin 0) = s"
      using Fin by (simp add: one_f32_def fsub_def)
  qed (simp_all add: one_f32_def fsub_def f32_inf_def)
qed

lemma mask_zero_drops:
  assumes "rounding rnd"
  shows "fsub rnd (fmul rnd s 0) (fmul rnd (Fin 10000) (fsub rnd (Fin 1) 0))
           = (if is_finite s then Fin (- 10000) else NaN)"
proof -
  have r: "rnd 0 = 0" "rnd 1 = 1" "rnd 10000 = 10000" "rnd (- 10000) = - 10000"
    using assms by (simp_all add: rounding_def)
  have z: "f32_of rnd 0 = Fin 0" and o: "f32_of rnd 1 = Fin 1"
    and t: "f32_of rnd 10000 = Fin 10000" and m: "f32_of rnd (- 10000) = Fin (- 10000)"
    using r f32_max_pos by (simp_all add: f32_of_def)
  have inner: "fmul rnd (Fin 10000) (fsub rnd (Fin 1) 0) = Fin 10000"
    by (simp add: zero_f32_def fsub_def o t)
  show ?thesis
    unfolding inner
    by (cases s) (simp_all add: zero_f32_def fsub_def z m)
qed

text \<open>
  The scores of one head of one entry of the batch, with the sizes that
  \<^verbatim>\<open>tf.shape\<close> reads written out.
\<close>

lemma scaled_scores_head:
  assumes "shape4 query B H Sd D" and "shape4 key B H Ss D"
    and "0 < Ss" and "b < B" and "h < H"
  shows "scaled_scores rnd query key ! b ! h
           = map (map (\<lambda>s. fdiv rnd s (fsqrt rnd (f32_of rnd (real D)))))
               (matmul_transpose_b rnd (query ! b ! h) (key ! b ! h))"
    and "length (scaled_scores rnd query key) = B"
    and "length (scaled_scores rnd query key ! b) = H"
    and "shape2 (scaled_scores rnd query key ! b ! h) Sd Ss"
proof -
  define score where "score = map2 (map2 (matmul_transpose_b rnd)) query key"
  have lq: "length query = B" and lk: "length key = B"
    using assms(1,2) by (simp_all add: shape4_length)
  have q3: "shape3 (query ! b') H Sd D" and k3: "shape3 (key ! b') H Ss D" if "b' < B" for b'
    using assms(1,2) that by (simp_all add: shape4_nth)
  have q2: "shape2 (query ! b' ! h') Sd D" and k2: "shape2 (key ! b' ! h') Ss D"
    if "b' < B" "h' < H" for b' h'
    using q3 [OF that(1)] k3 [OF that(1)] that(2) by (simp_all add: shape3_nth)
  have B0: "0 < B" and H0: "0 < H" using assms(4,5) by simp_all
  note Ss0 = assms(3)
  have dimkey: "length (slice0 (slice0 (slice0 key))) = D"
  proof -
    have "slice0 key = key ! 0" using lk B0 by (intro slice0_nth) auto
    moreover have "slice0 (key ! 0) = key ! 0 ! 0"
      using shape3_length [OF k3 [OF B0]] H0 by (intro slice0_nth) auto
    moreover have "slice0 (key ! 0 ! 0) = key ! 0 ! 0 ! 0"
      using shape2_length [OF k2 [OF B0 H0]] Ss0 by (intro slice0_nth) auto
    ultimately show ?thesis using shape2_nth [OF k2 [OF B0 H0] Ss0] by simp
  qed
  have ls: "length score = B" using lq lk by (simp add: score_def)
  have sc: "score ! b ! h = matmul_transpose_b rnd (query ! b ! h) (key ! b ! h)"
    and lsb: "length (score ! b) = H"
    using assms(4,5) lq lk shape3_length [OF q3 [OF assms(4)]] shape3_length [OF k3 [OF assms(4)]]
    by (simp_all add: score_def)
  have unfold: "scaled_scores rnd query key
      = map (map (map (map (\<lambda>s. fdiv rnd s (fsqrt rnd (f32_of rnd (real D))))))) score"
    unfolding scaled_scores_def Let_def using dimkey by (simp add: score_def)
  show "length (scaled_scores rnd query key) = B"
    unfolding unfold using ls by simp
  show "length (scaled_scores rnd query key ! b) = H"
    unfolding unfold using ls lsb assms(4) by simp
  show eq: "scaled_scores rnd query key ! b ! h
           = map (map (\<lambda>s. fdiv rnd s (fsqrt rnd (f32_of rnd (real D)))))
               (matmul_transpose_b rnd (query ! b ! h) (key ! b ! h))"
    unfolding unfold using ls lsb assms(4,5) sc by simp
  show "shape2 (scaled_scores rnd query key ! b ! h) Sd Ss"
    unfolding eq
    using shape2_length [OF q2 [OF assms(4,5)]] shape2_length [OF k2 [OF assms(4,5)]]
    by (simp add: matmul_transpose_b_def shape2_def)
qed

lemma attention_scores_head:
  assumes "shape4 query B H Sd D" and "shape4 key B H Ss D"
    and "0 < Sd" and "0 < Ss" and "b < B" and "h < H"
  shows "attention_scores rnd query key ! b ! h
           = map2 (map2 (\<lambda>s a.
                fsub rnd (fmul rnd s a) (fmul rnd (Fin 10000) (fsub rnd (Fin 1) a))))
               (scaled_scores rnd query key ! b ! h)
               (causal_attention_mask (int Sd) (int Ss))"
    and "length (attention_scores rnd query key) = B"
    and "length (attention_scores rnd query key ! b) = H"
    and "length (attention_scores rnd query key ! b ! h) = Sd"
proof -
  define scaled where "scaled = scaled_scores rnd query key"
  have B0: "0 < B" and H0: "0 < H" using assms(5,6) by simp_all
  note Sd0 = assms(3) and Ss0 = assms(4)
  have lsc: "length scaled = B"
    unfolding scaled_def by (rule scaled_scores_head(2) [OF assms(1,2,4,5,6)])
  have lscb: "length (scaled ! b') = H" if "b' < B" for b'
    unfolding scaled_def by (rule scaled_scores_head(3) [OF assms(1,2,4) that H0])
  have s2: "shape2 (scaled ! b' ! h') Sd Ss" if "b' < B" "h' < H" for b' h'
    unfolding scaled_def by (rule scaled_scores_head(4) [OF assms(1,2,4) that])
  have dd: "length (slice0 (slice0 scaled)) = Sd"
  proof -
    have "slice0 scaled = scaled ! 0" using lsc B0 by (intro slice0_nth) auto
    moreover have "slice0 (scaled ! 0) = scaled ! 0 ! 0"
      using lscb [OF B0] H0 by (intro slice0_nth) auto
    ultimately show ?thesis using shape2_length [OF s2 [OF B0 H0]] by simp
  qed
  have ds: "length (slice0 (slice0 (slice0 scaled))) = Ss"
  proof -
    have "slice0 scaled = scaled ! 0" using lsc B0 by (intro slice0_nth) auto
    moreover have "slice0 (scaled ! 0) = scaled ! 0 ! 0"
      using lscb [OF B0] H0 by (intro slice0_nth) auto
    moreover have "slice0 (scaled ! 0 ! 0) = scaled ! 0 ! 0 ! 0"
      using shape2_length [OF s2 [OF B0 H0]] Sd0 by (intro slice0_nth) auto
    ultimately show ?thesis using shape2_nth [OF s2 [OF B0 H0] Sd0] by simp
  qed
  have unfold: "attention_scores rnd query key
      = map (map (\<lambda>m. map2 (map2 (\<lambda>s a.
                fsub rnd (fmul rnd s a) (fmul rnd (Fin 10000) (fsub rnd (Fin 1) a))))
              m (causal_attention_mask (int Sd) (int Ss)))) scaled"
    unfolding attention_scores_def Let_def scaled_def [symmetric]
    using dd ds by simp
  show "length (attention_scores rnd query key) = B"
    unfolding unfold using lsc by simp
  show "length (attention_scores rnd query key ! b) = H"
    unfolding unfold using lsc lscb [OF assms(5)] assms(5) by simp
  show eq: "attention_scores rnd query key ! b ! h
           = map2 (map2 (\<lambda>s a.
                fsub rnd (fmul rnd s a) (fmul rnd (Fin 10000) (fsub rnd (Fin 1) a))))
               (scaled_scores rnd query key ! b ! h)
               (causal_attention_mask (int Sd) (int Ss))"
    unfolding unfold using lsc lscb [OF assms(5)] assms(5,6) by (simp add: scaled_def)
  show "length (attention_scores rnd query key ! b ! h) = Sd"
    unfolding eq
    using shape2_length [OF s2 [OF assms(5,6)]]
    by (simp add: scaled_def causal_attention_mask_length)
qed

lemma attention_scores_entry:
  assumes "rounding rnd" and "shape4 query B H Sd D" and "shape4 key B H Ss D"
    and "b < B" and "h < H" and "i < Sd" and "j < Ss"
  shows "scaled_scores rnd query key ! b ! h ! i ! j
           = fdiv rnd (dot rnd (query ! b ! h ! i) (key ! b ! h ! j))
               (fsqrt rnd (f32_of rnd (real D)))"
    and "attention_scores rnd query key ! b ! h ! i ! j
           = (if int j - int Ss + int Sd \<le> int i
              then scaled_scores rnd query key ! b ! h ! i ! j
              else if is_finite (scaled_scores rnd query key ! b ! h ! i ! j)
                then Fin (- 10000) else NaN)"
proof -
  have Sd0: "0 < Sd" and Ss0: "0 < Ss" using assms(6,7) by simp_all
  note sh = scaled_scores_head [OF assms(2,3) Ss0 assms(4,5)]
  note head = attention_scores_head [OF assms(2,3) Sd0 Ss0 assms(4,5)]
  have q2: "shape2 (query ! b ! h) Sd D" and k2: "shape2 (key ! b ! h) Ss D"
    using shape3_nth [OF shape4_nth [OF assms(2,4)] assms(5)]
      shape3_nth [OF shape4_nth [OF assms(3,4)] assms(5)] .
  have lq: "length (query ! b ! h) = Sd" and lk: "length (key ! b ! h) = Ss"
    using q2 k2 by (simp_all add: shape2_length)
  let ?s = "scaled_scores rnd query key ! b ! h ! i ! j"
  show s: "?s = fdiv rnd (dot rnd (query ! b ! h ! i) (key ! b ! h ! j))
               (fsqrt rnd (f32_of rnd (real D)))"
    unfolding sh(1) using lq lk assms(6,7) by (simp add: matmul_transpose_b_def)
  have valid: "f32_valid rnd ?s"
    unfolding s by (rule f32_valid_fdiv [OF assms(1)])
  have ls: "length (scaled_scores rnd query key ! b ! h) = Sd"
    and lsi: "length (scaled_scores rnd query key ! b ! h ! i) = Ss"
    using shape2_length [OF sh(4)] shape2_nth [OF sh(4) assms(6)] by simp_all
  have "attention_scores rnd query key ! b ! h ! i ! j
      = fsub rnd (fmul rnd ?s (causal_attention_mask (int Sd) (int Ss) ! i ! j))
          (fmul rnd (Fin 10000)
             (fsub rnd (Fin 1) (causal_attention_mask (int Sd) (int Ss) ! i ! j)))"
    unfolding head(1)
    using ls lsi assms(6,7)
    by (simp add: causal_attention_mask_length causal_attention_mask_row_length)
  then show "attention_scores rnd query key ! b ! h ! i ! j
           = (if int j - int Ss + int Sd \<le> int i then ?s
              else if is_finite ?s then Fin (- 10000) else NaN)"
    using causal_attention_mask_nth [OF assms(6,7), where ?'a = f32]
      mask_one_keeps [OF assms(1) valid] mask_zero_drops [OF assms(1), of ?s]
    by simp
qed

text \<open>
  Claim C3, as the method has it. For a query of shape \<open>(B, H, Sd, D)\<close> and a key of
  shape \<open>(B, H, Ss, D)\<close>, let \<open>s\<close> be the scaled score at destination \<open>i\<close> and source
  \<open>j\<close>, the float32 quotient of \<open>q \<cdot> k\<close> and \<open>sqrt D\<close>. Where the mask is 1
  (\<open>j - Ss + Sd \<le> i\<close>) the score that goes into the softmax is \<open>s\<close>, unchanged. Where the
  mask is 0 and \<open>s\<close> is finite it is the constant \<open>-10000\<close>: \<open>s\<close> is multiplied by the
  mask and the penalty \<open>-10000 * (1 - mask)\<close> is added. Where the mask is 0 and \<open>s\<close> is
  an infinity or NaN it is NaN. The attention weights are the softmax of these rows.
\<close>

theorem attention_scores_masked:
  assumes "rounding rnd" and "shape4 query B H Sd D" and "shape4 key B H Ss D"
    and "b < B" and "h < H" and "i < Sd" and "j < Ss"
    and "s = scaled_scores rnd query key ! b ! h ! i ! j"
  shows "s = fdiv rnd (dot rnd (query ! b ! h ! i) (key ! b ! h ! j))
               (fsqrt rnd (f32_of rnd (real D)))
       \<and> attention_scores rnd query key ! b ! h ! i ! j
           = (if int j - int Ss + int Sd \<le> int i then s
              else if is_finite s then Fin (- 10000) else NaN)
       \<and> snd (attention rnd query key value) ! b ! h ! i
           = tf_nn_softmax rnd (attention_scores rnd query key ! b ! h ! i)"
proof -
  have Sd0: "0 < Sd" and Ss0: "0 < Ss" using assms(6,7) by simp_all
  note head = attention_scores_head [OF assms(2,3) Sd0 Ss0 assms(4,5)]
  note entry = attention_scores_entry [OF assms(1-7)]
  have third: "snd (attention rnd query key value) ! b ! h ! i
           = tf_nn_softmax rnd (attention_scores rnd query key ! b ! h ! i)"
    using head(2,3,4) assms(4-6) by (simp add: attention_def Let_def)
  from entry third show ?thesis unfolding assms(8) by blast
qed

theorem attention_scores_masked_witness:
  "rounding (\<lambda>x. x)
   \<and> shape4 [[[[Fin 1, Fin 0, Fin 0, Fin 0], [Fin 0, Fin 2, Fin 0, Fin 0]]]] 1 1 2 4
   \<and> shape4 [[[[Fin 2, Fin 0, Fin 0, Fin 0], [Fin 0, Fin 4, Fin 0, Fin 0]]]] 1 1 2 4
   \<and> attention_scores (\<lambda>x. x)
         [[[[Fin 1, Fin 0, Fin 0, Fin 0], [Fin 0, Fin 2, Fin 0, Fin 0]]]]
         [[[[Fin 2, Fin 0, Fin 0, Fin 0], [Fin 0, Fin 4, Fin 0, Fin 0]]]]
         ! 0 ! 0 ! 0 ! 1 = Fin (- 10000)
   \<and> attention_scores (\<lambda>x. x)
         [[[[Fin 1, Fin 0, Fin 0, Fin 0], [Fin 0, Fin 2, Fin 0, Fin 0]]]]
         [[[[Fin 2, Fin 0, Fin 0, Fin 0], [Fin 0, Fin 4, Fin 0, Fin 0]]]]
         ! 0 ! 0 ! 1 ! 1 = Fin 4
   \<and> attention_scores (\<lambda>x. x)
         [[[[Fin 1, Fin 0, Fin 0, Fin 0], [Fin 0, Fin 2, Fin 0, Fin 0]]]]
         [[[[Fin 2, Fin 0, Fin 0, Fin 0], [Fin 0, Fin 4, Fin 0, Fin 0]]]]
         ! 0 ! 0 ! 0 ! 0 = Fin 1"
proof -
  have r: "rounding (\<lambda>x. x)" by (simp add: rounding_def)
  have q: "shape4 [[[[Fin 1, Fin 0, Fin 0, Fin 0], [Fin 0, Fin 2, Fin 0, Fin 0]]]] 1 1 2 4"
    and k: "shape4 [[[[Fin 2, Fin 0, Fin 0, Fin 0], [Fin 0, Fin 4, Fin 0, Fin 0]]]] 1 1 2 4"
    by (simp_all add: shape4_def shape3_def shape2_def)
  have sq: "sqrt (real 4) = 2" by simp
  note th = attention_scores_masked [OF r q k _ _ _ _ refl, of 0 0]
  have e01: "attention_scores (\<lambda>x. x)
         [[[[Fin 1, Fin 0, Fin 0, Fin 0], [Fin 0, Fin 2, Fin 0, Fin 0]]]]
         [[[[Fin 2, Fin 0, Fin 0, Fin 0], [Fin 0, Fin 4, Fin 0, Fin 0]]]]
         ! 0 ! 0 ! 0 ! 1 = Fin (- 10000)"
    using th [of 0 1] sq by (simp add: dot_def f32_of_def f32_max_def)
  have e11: "attention_scores (\<lambda>x. x)
         [[[[Fin 1, Fin 0, Fin 0, Fin 0], [Fin 0, Fin 2, Fin 0, Fin 0]]]]
         [[[[Fin 2, Fin 0, Fin 0, Fin 0], [Fin 0, Fin 4, Fin 0, Fin 0]]]]
         ! 0 ! 0 ! 1 ! 1 = Fin 4"
    using th [of 1 1] sq by (simp add: dot_def f32_of_def f32_max_def)
  have e00: "attention_scores (\<lambda>x. x)
         [[[[Fin 1, Fin 0, Fin 0, Fin 0], [Fin 0, Fin 2, Fin 0, Fin 0]]]]
         [[[[Fin 2, Fin 0, Fin 0, Fin 0], [Fin 0, Fin 4, Fin 0, Fin 0]]]]
         ! 0 ! 0 ! 0 ! 0 = Fin 1"
    using th [of 0 0] sq by (simp add: dot_def f32_of_def f32_max_def)
  from r q k e01 e11 e00 show ?thesis by blast
qed

text \<open>
  The claim that every masked score is the constant fails where the scaled score is not
  finite. With one head of width 1 and the query and key entries all \<open>2^70\<close>, the
  product \<open>2^140\<close> is beyond the largest float32 and the score is \<open>+inf\<close>; at destination
  0 and source 1 the mask is 0, the product \<open>inf * 0\<close> is NaN, and the masked score is
  NaN, not \<open>-10000\<close>. All numbers on the way are powers of two, zero, one or 10000,
  which float32 holds exactly, so no rounding takes part.
\<close>

theorem attention_scores_overflow_counterexample:
  "shape4 [[[[Fin (2 ^ 70)], [Fin (2 ^ 70)]]]] 1 1 2 1
   \<and> scaled_scores (\<lambda>x. x) [[[[Fin (2 ^ 70)], [Fin (2 ^ 70)]]]] [[[[Fin (2 ^ 70)], [Fin (2 ^ 70)]]]]
        ! 0 ! 0 ! 0 ! 1 = PInf
   \<and> attention_scores (\<lambda>x. x) [[[[Fin (2 ^ 70)], [Fin (2 ^ 70)]]]] [[[[Fin (2 ^ 70)], [Fin (2 ^ 70)]]]]
        ! 0 ! 0 ! 0 ! 1 = NaN
   \<and> NaN \<noteq> Fin (- 10000)"
proof -
  have r: "rounding (\<lambda>x. x)" by (simp add: rounding_def)
  have q: "shape4 [[[[Fin (2 ^ 70)], [Fin (2 ^ 70)]]]] 1 1 2 1"
    by (simp add: shape4_def shape3_def shape2_def)
  note e = attention_scores_entry [OF r q q, of 0 0 0 1]
  have s: "scaled_scores (\<lambda>x. x) [[[[Fin (2 ^ 70)], [Fin (2 ^ 70)]]]] [[[[Fin (2 ^ 70)], [Fin (2 ^ 70)]]]]
        ! 0 ! 0 ! 0 ! 1 = PInf"
    using e(1) by (simp add: dot_def f32_of_def f32_max_def f32_inf_def)
  have "attention_scores (\<lambda>x. x) [[[[Fin (2 ^ 70)], [Fin (2 ^ 70)]]]] [[[[Fin (2 ^ 70)], [Fin (2 ^ 70)]]]]
        ! 0 ! 0 ! 0 ! 1 = NaN"
    using e(2) s by simp
  with q s show ?thesis by simp
qed

text \<open>With heads of width zero every scaled score is \<open>0 / 0\<close>, which is NaN.\<close>

lemma attention_scores_head_dim_zero:
  "attention_scores (\<lambda>x. x) [[[[]]]] [[[[]]]] ! 0 ! 0 ! 0 ! 0 = NaN"
proof -
  have r: "rounding (\<lambda>x. x)" by (simp add: rounding_def)
  have q: "shape4 [[[[] :: f32 list]]] 1 1 1 0"
    by (simp add: shape4_def shape3_def shape2_def)
  note e = attention_scores_entry [OF r q q, of 0 0 0 0]
  have "scaled_scores (\<lambda>x. x) [[[[]]]] [[[[]]]] ! 0 ! 0 ! 0 ! 0 = NaN"
    using e(1) by (simp add: dot_def f32_of_def f32_max_def)
  then show ?thesis using e(2) by simp
qed

subsection \<open>Shapes through the attention layer\<close>

lemma chunks_Nil: "chunks n [] = []"
  by (simp add: chunks.simps)

lemma chunks_step: "0 < n \<Longrightarrow> xs \<noteq> [] \<Longrightarrow> chunks n xs = take n xs # chunks n (drop n xs)"
  by (subst chunks.simps) simp

lemma chunks_concat_rows:
  "0 < n \<Longrightarrow> \<forall>r \<in> set rows. length r = n \<Longrightarrow> chunks n (concat rows) = rows"
proof (induction rows)
  case Nil
  then show ?case by (simp add: chunks_Nil)
next
  case (Cons r rows)
  then have "r @ concat rows \<noteq> []" by auto
  from chunks_step [OF Cons.prems(1) this]
  have "chunks n (concat (r # rows)) = r # chunks n (concat rows)"
    using Cons.prems(2) by simp
  with Cons show ?case by simp
qed

lemma concat_chunks: "0 < n \<Longrightarrow> concat (chunks n xs) = xs"
proof (induction n xs rule: chunks.induct)
  case (1 n xs)
  show ?case
  proof (cases "xs = []")
    case True
    then show ?thesis by (simp add: chunks_Nil)
  next
    case False
    from chunks_step [OF "1.prems" False]
    have "concat (chunks n xs) = take n xs @ concat (chunks n (drop n xs))" by simp
    also have "concat (chunks n (drop n xs)) = drop n xs"
      using "1.IH" "1.prems" False by simp
    finally show ?thesis by simp
  qed
qed

lemma chunks_shape: "0 < p \<Longrightarrow> length xs = h * p \<Longrightarrow> shape2 (chunks p xs) h p"
proof (induction h arbitrary: xs)
  case 0
  then show ?case by (simp add: chunks_Nil shape2_def)
next
  case (Suc h)
  then have ne: "xs \<noteq> []" by auto
  have "length (drop p xs) = h * p" using Suc.prems by simp
  from Suc.IH [OF Suc.prems(1) this] have "shape2 (chunks p (drop p xs)) h p" .
  moreover have "length (take p xs) = p" using Suc.prems by simp
  ultimately show ?case
    unfolding chunks_step [OF Suc.prems(1) ne] by (simp add: shape2_def)
qed

lemma concat_concat_map: "concat (concat xss) = concat (map concat xss)"
  by (induction xss) auto

lemma length_concat_uniform:
  "\<forall>r \<in> set rows. length r = n \<Longrightarrow> length (concat rows) = length rows * n"
  by (induction rows) auto

lemma reshape_heads_rows:
  assumes "shape3 x B S (H * P)" and "0 < H" and "0 < P"
  shows "reshape_heads H P x = map (map (chunks P)) x"
proof -
  have "chunks H (chunks P (concat b)) = map (chunks P) b" if b: "b \<in> set x" for b
  proof -
    have rows: "\<forall>r \<in> set b. length r = H * P"
      using assms(1) b by (simp add: shape3_def shape2_def)
    have each: "\<forall>r \<in> set b. shape2 (chunks P r) H P"
      using rows chunks_shape [OF assms(3)] by blast
    have "map (\<lambda>r. concat (chunks P r)) b = b"
      by (simp add: concat_chunks [OF assms(3)])
    then have "concat b = concat (map concat (map (chunks P) b))"
      by (simp add: o_def)
    also have "\<dots> = concat (concat (map (chunks P) b))"
      by (rule concat_concat_map [symmetric])
    finally have flat: "concat b = concat (concat (map (chunks P) b))" .
    have "\<forall>c \<in> set (concat (map (chunks P) b)). length c = P"
      using each by (auto simp: shape2_def)
    from chunks_concat_rows [OF assms(3) this] flat
    have "chunks P (concat b) = concat (map (chunks P) b)" by simp
    moreover have "\<forall>c \<in> set (map (chunks P) b). length c = H"
      using each by (auto simp: shape2_def)
    ultimately show ?thesis using chunks_concat_rows [OF assms(2), of "map (chunks P) b"] by simp
  qed
  then show ?thesis by (simp add: reshape_heads_def)
qed

lemma shape4_reshape_heads:
  assumes "shape3 x B S (H * P)" and "0 < H" and "0 < P"
  shows "shape4 (reshape_heads H P x) B S H P"
proof (rule shape4_I)
  show "length (reshape_heads H P x) = B"
    using assms(1) by (simp add: reshape_heads_def shape3_length)
next
  fix b assume b: "b < B"
  have lx: "length x = B" using assms(1) by (rule shape3_length)
  have xb: "shape2 (x ! b) S (H * P)" using assms(1) b by (rule shape3_nth)
  have eq: "reshape_heads H P x ! b = map (chunks P) (x ! b)"
    using b lx by (simp add: reshape_heads_rows [OF assms])
  show "shape3 (reshape_heads H P x ! b) S H P"
  proof (rule shape3_I)
    show "length (reshape_heads H P x ! b) = S"
      using eq shape2_length [OF xb] by simp
  next
    fix s assume s: "s < S"
    have "reshape_heads H P x ! b ! s = chunks P (x ! b ! s)"
      using eq s shape2_length [OF xb] by simp
    moreover have "shape2 (chunks P (x ! b ! s)) H P"
      using shape2_nth [OF xb s] by (intro chunks_shape [OF assms(3)])
    ultimately show "shape2 (reshape_heads H P x ! b ! s) H P" by simp
  qed
qed

lemma reshape_embed_rows:
  assumes "shape4 x B S H P" and "0 < H * P"
  shows "reshape_embed (H * P) x = map (map concat) x"
proof -
  have "chunks (H * P) (concat (concat b)) = map concat b" if b: "b \<in> set x" for b
  proof -
    have b3: "\<forall>m \<in> set b. shape2 m H P"
      using assms(1) b by (simp add: shape4_def shape3_def)
    have "\<forall>r \<in> set (map concat b). length r = H * P"
    proof
      fix r assume "r \<in> set (map concat b)"
      then obtain m where m: "m \<in> set b" "r = concat m" by auto
      with b3 have "\<forall>v \<in> set m. length v = P" "length m = H" by (simp_all add: shape2_def)
      with m(2) show "length r = H * P" using length_concat_uniform [of m P] by simp
    qed
    from chunks_concat_rows [OF assms(2) this] show ?thesis
      by (simp only: concat_concat_map)
  qed
  then show ?thesis by (simp add: reshape_embed_def)
qed

lemma shape3_reshape_embed:
  assumes "shape4 x B S H P" and "0 < H * P"
  shows "shape3 (reshape_embed (H * P) x) B S (H * P)"
proof (rule shape3_I)
  show "length (reshape_embed (H * P) x) = B"
    using assms(1) by (simp add: reshape_embed_def shape4_length)
next
  fix b assume b: "b < B"
  have lx: "length x = B" using assms(1) by (rule shape4_length)
  have xb: "shape3 (x ! b) S H P" using assms(1) b by (rule shape4_nth)
  have eq: "reshape_embed (H * P) x ! b = map concat (x ! b)"
    using b lx by (simp add: reshape_embed_rows [OF assms])
  show "shape2 (reshape_embed (H * P) x ! b) S (H * P)"
  proof (rule shape2_I)
    show "length (reshape_embed (H * P) x ! b) = S"
      using eq shape3_length [OF xb] by simp
  next
    fix s assume s: "s < S"
    have m: "shape2 (x ! b ! s) H P" using xb s by (rule shape3_nth)
    have "reshape_embed (H * P) x ! b ! s = concat (x ! b ! s)"
      using eq s shape3_length [OF xb] by simp
    moreover have "length (concat (x ! b ! s)) = H * P"
      using m length_concat_uniform [of "x ! b ! s" P] by (simp add: shape2_def)
    ultimately show "length (reshape_embed (H * P) x ! b ! s) = H * P" by simp
  qed
qed

lemma shape3_transpose_12:
  assumes "shape3 m S H P" and "0 < S"
  shows "shape3 (transpose_12 m) H S P"
proof -
  have lm: "length m = S" using assms(1) by (rule shape3_length)
  have rows: "shape2 (m ! s) H P" if "s < S" for s
    using assms(1) that by (rule shape3_nth)
  have "slice0 m = m ! 0" using lm assms(2) by (intro slice0_nth) auto
  then have l0: "length (slice0 m) = H"
    using shape2_length [OF rows [OF assms(2)]] by simp
  show ?thesis
  proof (rule shape3_I)
    show "length (transpose_12 m) = H" by (simp add: transpose_12_def l0)
  next
    fix h assume h: "h < H"
    show "shape2 (transpose_12 m ! h) S P"
    proof (rule shape2_I)
      show "length (transpose_12 m ! h) = S" using h by (simp add: transpose_12_def l0 lm)
    next
      fix s assume s: "s < S"
      have "transpose_12 m ! h ! s = m ! s ! h"
        using h s by (simp add: transpose_12_def l0 lm)
      then show "length (transpose_12 m ! h ! s) = P"
        using shape2_nth [OF rows [OF s] h] by simp
    qed
  qed
qed

lemma shape4_map_transpose_12:
  assumes "shape4 x B S H P" and "0 < S"
  shows "shape4 (map transpose_12 x) B H S P"
proof (rule shape4_I)
  show "length (map transpose_12 x) = B" using assms(1) by (simp add: shape4_length)
next
  fix b assume b: "b < B"
  have "map transpose_12 x ! b = transpose_12 (x ! b)"
    using b assms(1) by (simp add: shape4_length)
  then show "shape3 (map transpose_12 x ! b) H S P"
    using shape3_transpose_12 [OF shape4_nth [OF assms(1) b] assms(2)] by simp
qed

lemma shape3_tadd:
  assumes "shape3 x B S D" and "shape3 y B S D"
  shows "shape3 (tadd rnd x y) B S D"
proof (rule shape3_I)
  show "length (tadd rnd x y) = B"
    using assms by (simp add: tadd_def shape3_length)
next
  fix b assume b: "b < B"
  have xb: "shape2 (x ! b) S D" and yb: "shape2 (y ! b) S D"
    using assms b by (simp_all add: shape3_nth)
  have lx: "length x = B" and ly: "length y = B" using assms by (simp_all add: shape3_length)
  have tb: "tadd rnd x y ! b = map2 (map2 (fadd rnd)) (x ! b) (y ! b)"
    using b lx ly by (simp add: tadd_def)
  show "shape2 (tadd rnd x y ! b) S D"
  proof (rule shape2_I)
    show "length (tadd rnd x y ! b) = S"
      using tb shape2_length [OF xb] shape2_length [OF yb] by simp
  next
    fix s assume s: "s < S"
    then show "length (tadd rnd x y ! b ! s) = D"
      using tb shape2_length [OF xb] shape2_length [OF yb]
        shape2_nth [OF xb s] shape2_nth [OF yb s]
      by simp
  qed
qed
lemma shape2_matmul: "shape2 (matmul rnd a b) (length a) (length (slice0 b))"
  by (simp add: matmul_def shape2_def)

lemma length_tf_nn_softmax: "length (tf_nn_softmax rnd xs) = length xs"
  by (simp add: tf_nn_softmax_def Let_def)

lemma shape4_attention:
  assumes "shape4 query B H S P" and "shape4 key B H S P" and "shape4 value B H S P"
    and "0 < B" and "0 < H" and "0 < S"
  shows "shape4 (fst (attention rnd query key value)) B H S P"
proof -
  define weights
    where "weights = map (map (map (tf_nn_softmax rnd))) (attention_scores rnd query key)"
  have out: "fst (attention rnd query key value) = map2 (map2 (matmul rnd)) weights value"
    by (simp add: attention_def Let_def weights_def)
  have lv: "length value = B" using assms(3) by (rule shape4_length)
  have lw: "length weights = B"
    using attention_scores_head(2) [OF assms(1,2,6,6,4,5)] by (simp add: weights_def)
  have lwb: "length (weights ! b) = H" if "b < B" for b
    using attention_scores_head(3) [OF assms(1,2,6,6) that assms(5)]
      attention_scores_head(2) [OF assms(1,2,6,6) that assms(5)] that
    by (simp add: weights_def)
  have lwbh: "length (weights ! b ! h) = S" if "b < B" "h < H" for b h
  proof -
    have "weights ! b ! h = map (tf_nn_softmax rnd) (attention_scores rnd query key ! b ! h)"
      using that attention_scores_head(2,3) [OF assms(1,2,6,6) that]
      by (simp add: weights_def)
    then show ?thesis
      using attention_scores_head(4) [OF assms(1,2,6,6) that] by simp
  qed
  show ?thesis
  proof (rule shape4_I)
    show "length (fst (attention rnd query key value)) = B" using out lv lw by simp
  next
    fix b assume b: "b < B"
    have vb: "shape3 (value ! b) H S P" using assms(3) b by (rule shape4_nth)
    have ob: "fst (attention rnd query key value) ! b
        = map2 (matmul rnd) (weights ! b) (value ! b)"
      using out b lv lw by simp
    show "shape3 (fst (attention rnd query key value) ! b) H S P"
    proof (rule shape3_I)
      show "length (fst (attention rnd query key value) ! b) = H"
        using ob lwb [OF b] shape3_length [OF vb] by simp
    next
      fix h assume h: "h < H"
      have vbh: "shape2 (value ! b ! h) S P" using vb h by (rule shape3_nth)
      have "slice0 (value ! b ! h) = value ! b ! h ! 0"
        using shape2_length [OF vbh] assms(6) by (intro slice0_nth) auto
      then have cols: "length (slice0 (value ! b ! h)) = P"
        using shape2_nth [OF vbh assms(6)] by simp
      have "fst (attention rnd query key value) ! b ! h
          = matmul rnd (weights ! b ! h) (value ! b ! h)"
        using ob h lwb [OF b] shape3_length [OF vb] by simp
      then show "shape2 (fst (attention rnd query key value) ! b ! h) S P"
        using shape2_matmul [of rnd "weights ! b ! h" "value ! b ! h"] lwbh [OF b h] cols
        by simp
    qed
  qed
qed

lemma shape4_separate_heads:
  assumes "shape3 x B S (nat (num_heads self) * nat (projection_dim self))"
    and "0 < num_heads self" and "0 < projection_dim self" and "0 < S"
  shows "shape4 (separate_heads self x batch_size)
           B (nat (num_heads self)) S (nat (projection_dim self))"
proof -
  have h: "0 < nat (num_heads self)" and p: "0 < nat (projection_dim self)"
    using assms(2,3) by simp_all
  from shape4_map_transpose_12 [OF shape4_reshape_heads [OF assms(1) h p] assms(4)]
  show ?thesis by (simp add: separate_heads_def Let_def)
qed

lemma MultiHeadSelfAttention_init_fields:
  assumes "MultiHeadSelfAttention_init units_ok embed_dim' num_heads' = Inr self"
  shows "embed_dim self = embed_dim'" and "num_heads self = num_heads'"
    and "projection_dim self = embed_dim' div num_heads'"
    and "num_heads' dvd embed_dim'" and "num_heads' \<noteq> 0"
    and "units (query_dense self) = embed_dim'" and "units (key_dense self) = embed_dim'"
    and "units (value_dense self) = embed_dim'" and "units (combine_heads self) = embed_dim'"
  using assms
  by (auto simp: MultiHeadSelfAttention_init_def layers_Dense_def dvd_eq_mod_eq_0
      split: if_splits)

lemma shape3_MultiHeadSelfAttention_call:
  assumes init: "MultiHeadSelfAttention_init units_ok embed_dim' num_heads' = Inr self"
    and pos: "0 < embed_dim'" "0 < num_heads'"
    and q: "dense_layer (nat embed_dim') (query_dense self) (query_dense_fn fns)"
    and k: "dense_layer (nat embed_dim') (key_dense self) (key_dense_fn fns)"
    and v: "dense_layer (nat embed_dim') (value_dense self) (value_dense_fn fns)"
    and c: "dense_layer (nat embed_dim') (combine_heads self) (combine_heads_fn fns)"
    and inp: "shape3 inputs B S (nat embed_dim')" and B: "0 < B" and S: "0 < S"
  shows "shape3 (MultiHeadSelfAttention_call rnd self fns inputs) B S (nat embed_dim')"
proof -
  note f = MultiHeadSelfAttention_init_fields [OF init]
  define H where "H = nat (num_heads self)"
  define P where "P = nat (projection_dim self)"
  define E where "E = nat embed_dim'"
  have prod: "embed_dim' = num_heads' * (embed_dim' div num_heads')"
    using f(4) by simp
  have Ppos: "0 < embed_dim' div num_heads'"
    using pos f(4) by (simp add: pos_imp_zdiv_pos_iff zdvd_imp_le)
  have HP: "E = H * P"
    unfolding E_def H_def P_def f(2,3)
    using prod pos Ppos by (metis nat_mult_distrib less_imp_le)
  have H0: "0 < H" and P0: "0 < P" using pos Ppos by (simp_all add: H_def P_def f(2,3))
  have hs: "0 < num_heads self" and ps: "0 < projection_dim self"
    using pos Ppos by (simp_all add: f(2,3))
  define query where "query = query_dense_fn fns inputs"
  define key where "key = key_dense_fn fns inputs"
  define "value" where "value = value_dense_fn fns inputs"
  have q3: "shape3 query B S (H * P)" and k3: "shape3 key B S (H * P)"
    and v3: "shape3 value B S (H * P)"
    using q k v inp
    by (simp_all add: dense_layer_def f(6-8) query_def key_def value_def E_def [symmetric] HP)
  define qh where "qh = separate_heads self query (length inputs)"
  define kh where "kh = separate_heads self key (length inputs)"
  define vh where "vh = separate_heads self value (length inputs)"
  have q4: "shape4 qh B H S P" and k4: "shape4 kh B H S P" and v4: "shape4 vh B H S P"
    unfolding qh_def kh_def vh_def H_def P_def
    using q3 k3 v3 by (auto intro!: shape4_separate_heads hs ps S simp: H_def P_def)
  have a4: "shape4 (fst (attention rnd qh kh vh)) B H S P"
    by (rule shape4_attention [OF q4 k4 v4 B H0 S])
  have t4: "shape4 (map transpose_12 (fst (attention rnd qh kh vh))) B S H P"
    by (rule shape4_map_transpose_12 [OF a4 H0])
  have EP: "0 < H * P" using H0 P0 by simp
  have r3: "shape3 (reshape_embed (H * P) (map transpose_12 (fst (attention rnd qh kh vh)))) B S (H * P)"
    by (rule shape3_reshape_embed [OF t4 EP])
  have call: "MultiHeadSelfAttention_call rnd self fns inputs
      = combine_heads_fn fns
          (reshape_embed (H * P) (map transpose_12 (fst (attention rnd qh kh vh))))"
    by (simp add: MultiHeadSelfAttention_call_def Let_def split_beta qh_def kh_def vh_def
        query_def key_def value_def f(1) E_def [symmetric] HP)
  show ?thesis
    unfolding call using c r3
    by (simp add: dense_layer_def f(9) E_def [symmetric] HP)
qed
subsection \<open>Transformer block\<close>

lemma dense_layerD:
  "dense_layer d_in d f \<Longrightarrow> shape3 t b s d_in \<Longrightarrow> shape3 (f t) b s (nat (units d))"
  by (simp add: dense_layer_def)

lemma shape_preservingD: "shape_preserving d f \<Longrightarrow> shape3 t b s d \<Longrightarrow> shape3 (f t) b s d"
  by (simp add: shape_preserving_def)

lemma dense_chain_two:
  "dense_chain d_in [d1, d2] fs \<Longrightarrow>
   \<exists>f1 f2. fs = [f1, f2] \<and> dense_layer d_in d1 f1 \<and> dense_layer (nat (units d1)) d2 f2"
proof -
  assume h: "dense_chain d_in [d1, d2] fs"
  then obtain f1 fs' where fs: "fs = f1 # fs'" by (cases fs) auto
  with h obtain f2 fs'' where fs': "fs' = f2 # fs''" by (cases fs') auto
  with h fs have "fs'' = []" by (cases fs'') auto
  with h fs fs' show ?thesis by auto
qed

text \<open>
  Claim C5. For a block built by the constructor from a positive embedding dimension
  and head count, with the called sublayers keeping the framework's shapes, and a
  non-empty input of shape \<open>(B, S, embed_dim)\<close>: the result is computed by
  self-attention, first dropout, addition of the input, first normalization, the first
  dense layer (\<open>ff_dim\<close> units, relu), the second dense layer (\<open>embed_dim\<close> units), second
  dropout, addition of the normalized sum, second normalization, in this order; the two
  normalizations are two layers; and the result has the shape of the input.
\<close>

theorem TransformerBlock_call_sequence_and_shape:
  assumes "TransformerBlock_init units_ok embed_dim' num_heads' ff_dim rate' = Inr self"
    and "0 < embed_dim'" and "0 < num_heads'"
    and "built self fns"
    and "shape3 inputs B S (nat embed_dim')" and "0 < B" and "0 < S"
  shows "\<exists>f1 f2 attention_output out1 hidden ffn_output.
           ffn self = [\<lparr> units = ff_dim, activation = Some ''relu'' \<rparr>,
                       \<lparr> units = embed_dim', activation = None \<rparr>]
         \<and> ffn_fns fns = [f1, f2]
         \<and> attention_output
             = dropout1_fn fns (MultiHeadSelfAttention_call rnd (att self) (att_fns fns) inputs)
         \<and> out1 = layernorm1_fn fns (tadd rnd inputs attention_output)
         \<and> hidden = f1 out1
         \<and> ffn_output = dropout2_fn fns (f2 hidden)
         \<and> TransformerBlock_call rnd self fns inputs = layernorm2_fn fns (tadd rnd out1 ffn_output)
         \<and> shape3 attention_output B S (nat embed_dim')
         \<and> shape3 out1 B S (nat embed_dim')
         \<and> shape3 hidden B S (nat ff_dim)
         \<and> shape3 ffn_output B S (nat embed_dim')
         \<and> shape3 (TransformerBlock_call rnd self fns inputs) B S (nat embed_dim')"
proof -
  from assms(1) obtain a where a: "MultiHeadSelfAttention_init units_ok embed_dim' num_heads' = Inr a"
    and att: "att self = a"
    and ffn: "ffn self = [\<lparr> units = ff_dim, activation = Some ''relu'' \<rparr>,
                          \<lparr> units = embed_dim', activation = None \<rparr>]"
    by (auto simp: TransformerBlock_init_def layers_Dense_def layers_Dropout_def
        split: sum.splits if_splits)
  note f = MultiHeadSelfAttention_init_fields [OF a]
  define E where "E = nat embed_dim'"
  have e: "nat (embed_dim a) = E" by (simp add: f(1) E_def)
  have b:
    "dense_layer E (query_dense a) (query_dense_fn (att_fns fns))"
    "dense_layer E (key_dense a) (key_dense_fn (att_fns fns))"
    "dense_layer E (value_dense a) (value_dense_fn (att_fns fns))"
    "dense_layer E (combine_heads a) (combine_heads_fn (att_fns fns))"
    "dense_chain E (ffn self) (ffn_fns fns)"
    "shape_preserving E (layernorm1_fn fns)" "shape_preserving E (layernorm2_fn fns)"
    "shape_preserving E (dropout1_fn fns)" "shape_preserving E (dropout2_fn fns)"
    using assms(4) by (simp_all add: built_def Let_def att e)
  from dense_chain_two [OF b(5) [unfolded ffn]] obtain f1 f2 where fs: "ffn_fns fns = [f1, f2]"
    and f1: "dense_layer E \<lparr> units = ff_dim, activation = Some ''relu'' \<rparr> f1"
    and f2: "dense_layer (nat ff_dim) \<lparr> units = embed_dim', activation = None \<rparr> f2"
    by auto
  define attention_output
    where "attention_output = dropout1_fn fns (MultiHeadSelfAttention_call rnd a (att_fns fns) inputs)"
  define out1 where "out1 = layernorm1_fn fns (tadd rnd inputs attention_output)"
  define hidden where "hidden = f1 out1"
  define ffn_output where "ffn_output = dropout2_fn fns (f2 hidden)"
  have inp: "shape3 inputs B S E" using assms(5) by (simp add: E_def)
  have s_att: "shape3 (MultiHeadSelfAttention_call rnd a (att_fns fns) inputs) B S E"
    unfolding E_def
    by (rule shape3_MultiHeadSelfAttention_call
        [OF a assms(2,3) b(1-4) [unfolded E_def] assms(5,6,7)])
  have s1: "shape3 attention_output B S E"
    unfolding attention_output_def by (rule shape_preservingD [OF b(8) s_att])
  have s2: "shape3 out1 B S E"
    unfolding out1_def by (rule shape_preservingD [OF b(6) shape3_tadd [OF inp s1]])
  have s3: "shape3 hidden B S (nat ff_dim)"
    unfolding hidden_def using dense_layerD [OF f1 s2] by simp
  have "shape3 (f2 hidden) B S E"
    using dense_layerD [OF f2 s3] by (simp add: E_def)
  then have s4: "shape3 ffn_output B S E"
    unfolding ffn_output_def by (rule shape_preservingD [OF b(9)])
  have call: "TransformerBlock_call rnd self fns inputs = layernorm2_fn fns (tadd rnd out1 ffn_output)"
    by (simp add: TransformerBlock_call_def Let_def keras_sequential_def fs att
        attention_output_def out1_def hidden_def ffn_output_def)
  have s5: "shape3 (TransformerBlock_call rnd self fns inputs) B S E"
    unfolding call by (rule shape_preservingD [OF b(7) shape3_tadd [OF s2 s4]])
  from ffn fs call s1 s2 s3 s4 s5
  show ?thesis
    unfolding E_def attention_output_def out1_def hidden_def ffn_output_def att
    by blast
qed

theorem TransformerBlock_call_sequence_and_shape_witness:
  "(\<exists>self. TransformerBlock_init (\<lambda>units'. 0 \<le> units') 2 2 3 (1 / 10) = Inr self
        \<and> built self example_block_layers
        \<and> shape3 (TransformerBlock_call (\<lambda>x. x) self example_block_layers
             [[[Fin 1, Fin 2], [Fin 3, Fin 4], [Fin 5, Fin 6]]]) 1 3 2)
   \<and> shape3 [[[Fin 1, Fin 2], [Fin 3, Fin 4], [Fin 5, Fin 6]]] 1 3 2"
proof -
  obtain self where init: "TransformerBlock_init (\<lambda>units'. 0 \<le> units') 2 2 3 (1 / 10) = Inr self"
    by (simp add: TransformerBlock_init_def MultiHeadSelfAttention_init_def layers_Dense_def
        layers_Dropout_def)
  have dl: "dense_layer d_in d (example_dense_fn u)" if "nat (units d) = u" for d_in d u
    using that by (auto simp: dense_layer_def example_dense_fn_def shape3_def shape2_def)
  have sp: "shape_preserving d (\<lambda>t. t)" for d
    by (simp add: shape_preserving_def)
  have b: "built self example_block_layers"
    using init
    by (auto simp: built_def Let_def example_block_layers_def TransformerBlock_init_def
        MultiHeadSelfAttention_init_def layers_Dense_def layers_Dropout_def intro!: dl sp)
  have inp: "shape3 [[[Fin 1, Fin 2], [Fin 3, Fin 4], [Fin 5, Fin 6]]] 1 3 (nat 2)"
    by (simp add: shape3_def shape2_def)
  have "shape3 (TransformerBlock_call (\<lambda>x. x) self example_block_layers
             [[[Fin 1, Fin 2], [Fin 3, Fin 4], [Fin 5, Fin 6]]]) 1 3 (nat 2)"
    using TransformerBlock_call_sequence_and_shape [OF init _ _ b inp] by auto
  with init b inp show ?thesis by auto
qed

subsection \<open>The generation loop returns\<close>

text \<open>
  The loop returns, without raising, for a model that answers every row of \<open>maxlen\<close>
  tokens with \<open>maxlen\<close> logits vectors of at least \<open>top_k\<close> entries each.
\<close>

lemma py_index_model_output:
  assumes "0 < maxlen" and "length y = maxlen"
  shows "\<exists>logits \<in> set y. py_index y (snd (model_input maxlen toks)) = Inr logits"
proof -
  let ?i = "snd (model_input maxlen toks)"
  have range: "- 1 \<le> ?i \<and> ?i < int maxlen"
    by (auto simp: model_input_snd)
  show ?thesis
  proof (cases "0 \<le> ?i")
    case True
    with range assms have "py_index y ?i = Inr (y ! nat ?i)" and "nat ?i < length y"
      by (simp_all add: py_index_def)
    then show ?thesis by (metis nth_mem)
  next
    case False
    with range have i: "?i = - 1" by linarith
    with assms have "py_index y ?i = Inr (y ! nat (int (length y) - 1))"
      and "nat (int (length y) - 1) < length y"
      by (simp_all add: py_index_def)
    then show ?thesis by (metis nth_mem)
  qed
qed

lemma generate_loop_returns:
  assumes "0 < maxlen" and "0 < top_k self"
    and "\<forall>x. length x = maxlen \<longrightarrow>
           length (predict x) = maxlen
           \<and> (\<forall>logits \<in> set (predict x). top_k self \<le> int (length logits))"
    and "\<forall>n. 0 \<le> rand n \<and> rand n < 1"
  shows "\<exists>r. generate_loop self maxlen predict rand (st, tg, num, fed) = Inr r"
  using assms
proof (induction self maxlen predict rand "(st, tg, num, fed)" arbitrary: st tg num fed
    rule: generate_loop.induct)
  case (1 self maxlen predict rand st tg num fed)
  show ?case
  proof (cases "num \<le> max_tokens self")
    case False
    then show ?thesis by (simp add: generate_loop.simps)
  next
    case True
    let ?x = "fst (model_input maxlen st)"
    have lx: "length ?x = maxlen" by (rule model_input_length)
    with "1.prems"(3) have ly: "length (predict ?x) = maxlen"
      and rows: "\<forall>logits \<in> set (predict ?x). top_k self \<le> int (length logits)"
      by blast+
    from py_index_model_output [OF "1.prems"(1) ly, of st] obtain logits where
      logits: "logits \<in> set (predict ?x)"
        "py_index (predict ?x) (snd (model_input maxlen st)) = Inr logits"
      by blast
    from rows logits(1) have k: "top_k self \<le> int (length logits)" by blast
    from "1.prems"(4) have u: "0 \<le> rand (length fed)" "rand (length fed) < 1" by simp_all
    from sample_from_unfold(2) [OF "1.prems"(2) k u refl refl]
    obtain tok where tok: "sample_from (top_k self) logits (rand (length fed)) = Inr tok"
      by blast
    from "1.hyps" [OF True logits(2) tok "1.prems"]
    obtain r where "generate_loop self maxlen predict rand
         (st @ [tok], tg @ [tok], int (length (tg @ [tok])), fed @ [model_input maxlen st])
       = Inr r"
      by blast
    with True logits(2) tok show ?thesis
      by (subst generate_loop.simps) (cases r, simp)
  qed
qed

end
